theory Spec2Isabelle
  imports Main
begin

section \<open>The element tree\<close>

text \<open>
  The converter works on trees built by the XML library. The model keeps what the source reads
  and writes through that API: the tag in Clark notation (\<open>{uri}local\<close>), the attribute
  mapping in document order, the text before the first child, the children, and the text after
  the closing tag. Character data is kept in pieces so that a literal (CDATA) section stays
  distinguishable from ordinary text. Comments are children too: the library counts them in
  \<open>len(node)\<close> and returns them from \<open>node[index]\<close>; their tag is not a string, so no comparison
  of it with a string holds.

  Strings are Isabelle strings; a character stands for a code point below 256.
\<close>

datatype chunk = Text string | CData string

datatype node =
    Element (tag: string) (attrib: "(string \<times> string) list") (text_chunks: "chunk list")
            (children: "node list") (tail_chunks: "chunk list")
  | Comment (comment_text: string) (comment_tail: "chunk list")

text \<open>
  What the parser raises: \<open>XMLSyntaxError\<close> with its diagnostic. \<open>XMLUnmodelled\<close> is the
  answer of the model of the parser below to a document outside the part of XML it covers.
\<close>

datatype xml_syntax_error =
    XMLSyntaxError string
  | XMLUnmodelled

text \<open>
  The exceptions of the program. \<open>Unmodelled\<close> is not one of them: it stands for the outcome of
  a library call on an input that the models of the libraries below do not cover, as
  \<open>XMLUnmodelled\<close> does for the parser.
\<close>

datatype error =
    ParseError xml_syntax_error
  | KeyError string
  | IndexError
  | AttributeError
  | ValueError
  | Unmodelled

text \<open>
  \<open>len(node)\<close>, \<open>node[index]\<close> and \<open>node[index] = value\<close>. The assignment takes the old
  child out together with the text that follows it and puts the value in with its own.
\<close>

fun len :: "node \<Rightarrow> nat" where
  "len (Element _ _ _ cs _) = length cs"
| "len (Comment _ _) = 0"

fun getitem :: "node \<Rightarrow> nat \<Rightarrow> error + node" where
  "getitem (Element _ _ _ cs _) i = (if i < length cs then Inr (cs ! i) else Inl IndexError)"
| "getitem (Comment _ _) i = Inl IndexError"

fun setitem :: "node \<Rightarrow> nat \<Rightarrow> node \<Rightarrow> node" where
  "setitem (Element t a x cs tlc) i v = Element t a x (cs[i := v]) tlc"
| "setitem (Comment c tlc) i v = Comment c tlc"

fun children_of :: "node \<Rightarrow> node list" where
  "children_of (Element _ _ _ cs _) = cs"
| "children_of (Comment _ _) = []"

fun set_children :: "node \<Rightarrow> node list \<Rightarrow> node" where
  "set_children (Element t a x _ tlc) cs = Element t a x cs tlc"
| "set_children (Comment c tlc) cs = Comment c tlc"

text \<open>\<open>node.tag == name\<close>, \<open>node.attrib\<close>, \<open>node.attrib.get(key)\<close> and \<open>node.text\<close>.\<close>

fun tag_is :: "node \<Rightarrow> string \<Rightarrow> bool" where
  "tag_is (Element t _ _ _ _) name = (t = name)"
| "tag_is (Comment _ _) name = False"

fun attrib_of :: "node \<Rightarrow> (string \<times> string) list" where
  "attrib_of (Element _ a _ _ _) = a"
| "attrib_of (Comment _ _) = []"

fun set_attrib :: "node \<Rightarrow> (string \<times> string) list \<Rightarrow> node" where
  "set_attrib (Element t _ x cs tlc) a = Element t a x cs tlc"
| "set_attrib (Comment c tlc) a = Comment c tlc"

definition attrib_get :: "node \<Rightarrow> string \<Rightarrow> string option" where
  "attrib_get n key = map_of (attrib_of n) key"

fun chunk_str :: "chunk \<Rightarrow> string" where
  "chunk_str (Text s) = s"
| "chunk_str (CData s) = s"

fun text_of :: "node \<Rightarrow> string option" where
  "text_of (Element _ _ x _ _) = (if x = [] then None else Some (concat (map chunk_str x)))"
| "text_of (Comment c _) = Some c"

section \<open>The libraries the source calls\<close>

text \<open>
  Four library calls decide what the source does and are not part of the repository:
  \<open>lxml.etree.fromstringlist\<close> with the parser the source configures, \<open>lxml.etree.tostring\<close>
  with the arguments the source passes, \<open>urllib.parse.urlparse(url).netloc\<close>, and
  \<open>attrib.pop(key, None)\<close> on a comment node, whose \<open>attrib\<close> is not the attribute mapping of
  an element but an empty mapping of the library's own. The source functions below take them
  as a parameter, so that what is proved of the source holds for whatever these calls do. A
  raised exception is the \<open>Inl\<close> result; for the \<open>pop\<close> on a comment, which has nothing to
  remove, the result is the exception it raises, or \<open>None\<close> when it returns.
\<close>

record library =
  fromstringlist :: "string list \<Rightarrow> xml_syntax_error + node"
  tostring :: "node \<Rightarrow> error + string"
  urlparse_netloc :: "string \<Rightarrow> error + string"
  comment_attrib_pop :: "string \<Rightarrow> error option"

section \<open>Regular expressions of the source\<close>

text \<open>
  \<open>\s\<close> and \<open>\d\<close> of a Python \<open>str\<close> pattern, on code points below 256.
\<close>

definition py_isspace :: "char \<Rightarrow> bool" where
  "py_isspace c =
     (let k = (of_char c :: nat)
      in (9 \<le> k \<and> k \<le> 13) \<or> (28 \<le> k \<and> k \<le> 32) \<or> k = 133 \<or> k = 160)"

definition py_isdigit :: "char \<Rightarrow> bool" where
  "py_isdigit c = (let k = (of_char c :: nat) in 48 \<le> k \<and> k \<le> 57)"

fun startswith :: "string \<Rightarrow> string \<Rightarrow> bool" where
  "startswith s [] = True"
| "startswith [] (p # ps) = False"
| "startswith (c # cs) (p # ps) = (c = p \<and> startswith cs ps)"

definition strip_prefix :: "string \<Rightarrow> string \<Rightarrow> string option" where
  "strip_prefix p s = (if startswith s p then Some (drop (length p) s) else None)"

definition endswith :: "string \<Rightarrow> string \<Rightarrow> bool" where
  "endswith s p = startswith (rev s) (rev p)"

definition rstrip_space :: "string \<Rightarrow> string" where
  "rstrip_space s = rev (dropWhile py_isspace (rev s))"

text \<open>
  \<open><!--\s+confluence-page-id:\s*(\d+)\s+-->\<close> matched at the start of a string: the length of
  the match and group 1. Every repetition is followed by a character outside its class, so the
  longest run is the only one that can match.
\<close>

definition match_page_id :: "string \<Rightarrow> (nat \<times> string) option" where
  "match_page_id s =
     (case strip_prefix ''<!--'' s of
        None \<Rightarrow> None
      | Some s1 \<Rightarrow>
          if takeWhile py_isspace s1 = [] then None
          else
            (case strip_prefix ''confluence-page-id:'' (dropWhile py_isspace s1) of
               None \<Rightarrow> None
             | Some s3 \<Rightarrow>
                 (let s4 = dropWhile py_isspace s3;
                      digits = takeWhile py_isdigit s4;
                      s5 = dropWhile py_isdigit s4
                  in if digits = [] then None
                     else if takeWhile py_isspace s5 = [] then None
                     else
                       (case strip_prefix ''-->'' (dropWhile py_isspace s5) of
                          None \<Rightarrow> None
                        | Some s7 \<Rightarrow> Some (length s - length s7, digits)))))"

text \<open>
  \<open>re.search\<close> of that pattern: the leftmost position where it matches, as
  (\<open>match.start()\<close>, \<open>match.end()\<close>, \<open>match.group(1)\<close>). The first argument counts the characters
  already passed.
\<close>

fun re_search_page_id :: "nat \<Rightarrow> string \<Rightarrow> (nat \<times> nat \<times> string) option" where
  "re_search_page_id pos [] = None"
| "re_search_page_id pos (c # cs) =
     (case match_page_id (c # cs) of
        Some (n, g) \<Rightarrow> Some (pos, pos + n, g)
      | None \<Rightarrow> re_search_page_id (Suc pos) cs)"

text \<open>
  \<open>re.match("^language-(.*)$", s)\<close>: group 1, or \<open>None\<close>. The dot stops at a line feed and
  \<open>$\<close> also holds just before a line feed that ends the string.
\<close>

definition re_match_language :: "string \<Rightarrow> string option" where
  "re_match_language s =
     (case strip_prefix ''language-'' s of
        None \<Rightarrow> None
      | Some r \<Rightarrow>
          if CHR 0x0A \<notin> set r then Some r
          else if r \<noteq> [] \<and> last r = CHR 0x0A \<and> CHR 0x0A \<notin> set (butlast r) then Some (butlast r)
          else None)"

text \<open>
  \<open>re.match(r"^<root\s+[^>]*>(.*)</root>\s*$", xml, re.DOTALL)\<close>: group 1, or \<open>None\<close>. The
  opening tag ends at the first \<open>>\<close>; what follows the last \<open></root>\<close> must be white space.
\<close>

definition re_match_root :: "string \<Rightarrow> string option" where
  "re_match_root xml =
     (case strip_prefix ''<root'' xml of
        None \<Rightarrow> None
      | Some r1 \<Rightarrow>
          (case r1 of
             [] \<Rightarrow> None
           | c # _ \<Rightarrow>
               if \<not> py_isspace c then None
               else
                 (case dropWhile (\<lambda>c. c \<noteq> CHR ''>'') r1 of
                    [] \<Rightarrow> None
                  | _ # body \<Rightarrow>
                      (let b = rstrip_space body
                       in if endswith b ''</root>'' then Some (take (length b - 7) b)
                          else None))))"

section \<open>The source\<close>

subsection \<open>\<open>is_absolute_url\<close>, \<open>element_from_string_list\<close>, \<open>element_from_string\<close>\<close>

definition is_absolute_url :: "library \<Rightarrow> string \<Rightarrow> error + bool" where
  "is_absolute_url L url =
     (case urlparse_netloc L url of
        Inl e \<Rightarrow> Inl e
      | Inr netloc \<Rightarrow> Inr (netloc \<noteq> []))"

text \<open>The list \<open>data\<close> that \<open>element_from_string_list\<close> hands to the parser.\<close>

definition root_data :: "string list \<Rightarrow> string list" where
  \<open>root_data items =
     [''<?xml version="1.0"?>'',
      ''<root xmlns:ac="http://atlassian.com/content" xmlns:ri="http://atlassian.com/resource/identifier">'']
     @ items @ [''</root>'']\<close>

definition element_from_string_list :: "library \<Rightarrow> string list \<Rightarrow> error + node" where
  "element_from_string_list L items =
     (case fromstringlist L (root_data items) of
        Inl e \<Rightarrow> Inl (ParseError e)
      | Inr root \<Rightarrow> if len root > 1 then Inr root else getitem root 0)"

definition element_from_string :: "library \<Rightarrow> string \<Rightarrow> error + node" where
  "element_from_string L txt = element_from_string_list L [txt]"

definition languages :: "string list" where
  "languages =
     [''actionscript3'', ''bash'', ''csharp'', ''coldfusion'', ''cpp'', ''css'', ''delphi'',
      ''diff'', ''erlang'', ''groovy'', ''html'', ''java'', ''javafx'', ''javascript'', ''json'',
      ''perl'', ''php'', ''powershell'', ''python'', ''ruby'', ''scala'', ''sql'', ''vb'',
      ''xml'']"

subsection \<open>\<open>NodeVisitor\<close>\<close>

text \<open>
  A transform receives the visitor's state and a child. It returns the replacement (or
  \<open>None\<close>), the child's attribute mapping as the call leaves it (the only part of a child a
  transform of this repository changes in place) and the new state, or the exception it raises.
\<close>

type_synonym 's transform =
  "'s \<Rightarrow> node \<Rightarrow> error + (node option \<times> (string \<times> string) list \<times> 's)"

fun weight :: "node \<Rightarrow> nat" where
  "weight (Element _ _ _ cs _) = Suc (sum_list (map weight cs))"
| "weight (Comment _ _) = 1"

definition rest_weight :: "node \<Rightarrow> nat \<Rightarrow> nat" where
  "rest_weight n i = sum_list (map weight (drop i (children_of n)))"

function visit :: "'s transform \<Rightarrow> 's \<Rightarrow> node \<Rightarrow> error + (node \<times> 's)"
  and visit_range :: "'s transform \<Rightarrow> 's \<Rightarrow> node \<Rightarrow> nat \<Rightarrow> nat \<Rightarrow> error + (node \<times> 's)"
where
  "visit tr st node =
     (if len node < 1 then Inr (node, st)
      else visit_range tr st node 0 (len node))"
| "visit_range tr st node index n =
     (if index < n then
        (case getitem node index of
           Inl e \<Rightarrow> Inl e
         | Inr source \<Rightarrow>
             (case tr st source of
                Inl e \<Rightarrow> Inl e
              | Inr (Some target, a, st1) \<Rightarrow>
                  visit_range tr st1 (setitem node index target) (Suc index) n
              | Inr (None, a, st1) \<Rightarrow>
                  (case visit tr st1 (set_attrib source a) of
                     Inl e \<Rightarrow> Inl e
                   | Inr (source', st2) \<Rightarrow>
                       visit_range tr st2 (setitem node index source') (Suc index) n)))
      else Inr (node, st))"
  by pat_completeness auto

lemma weight_pos: "0 < weight n"
  by (cases n) auto

lemma weight_set_attrib: "weight (set_attrib n a) = weight n"
  by (cases n) auto

lemma rest_weight_setitem:
  assumes "getitem node i = Inr s"
  shows "rest_weight (setitem node i v) (Suc i) < rest_weight node i"
proof (cases node)
  case (Element t a x cs tlc)
  with assms have i: "i < length cs" by (simp split: if_splits)
  have "drop i cs = cs ! i # drop (Suc i) cs"
    using i by (simp add: Cons_nth_drop_Suc)
  then show ?thesis
    using Element weight_pos[of "cs ! i"] by (simp add: rest_weight_def)
next
  case (Comment c tlc)
  with assms show ?thesis by simp
qed

lemma rest_weight_getitem:
  assumes "getitem node i = Inr s"
  shows "weight s \<le> rest_weight node i"
proof (cases node)
  case (Element t a x cs tlc)
  with assms have i: "i < length cs" and s: "s = cs ! i" by (auto split: if_splits)
  have "drop i cs = cs ! i # drop (Suc i) cs"
    using i by (simp add: Cons_nth_drop_Suc)
  then show ?thesis
    using Element s by (simp add: rest_weight_def)
next
  case (Comment c tlc)
  with assms show ?thesis by simp
qed

lemma loop_entry_decreases: "Suc (2 * rest_weight node 0) < 2 * weight node"
  by (cases node) (auto simp: rest_weight_def)

lemma visit_call_decreases:
  "getitem node i = Inr s \<Longrightarrow> 2 * weight (set_attrib s a) < Suc (2 * rest_weight node i)"
  using rest_weight_getitem[of node i s] by (simp add: weight_set_attrib)

termination visit
proof (relation "measure (\<lambda>x. case x of Inl (tr, st, n) \<Rightarrow> 2 * weight n
                                     | Inr (tr, st, n, i, k) \<Rightarrow> 2 * rest_weight n i + 1)",
       goal_cases)
  case 1
  show ?case by simp
next
  case 2
  then show ?case by (simp add: loop_entry_decreases)
next
  case 3
  then show ?case by (simp add: rest_weight_setitem visit_call_decreases)
next
  case 4
  then show ?case by (simp add: rest_weight_setitem visit_call_decreases)
next
  case 5
  then show ?case by (simp add: rest_weight_setitem visit_call_decreases)
qed

declare visit.simps [simp del] visit_range.simps [simp del]

text \<open>\<open>NodeVisitor.transform\<close>: the body is \<open>pass\<close>.\<close>

definition base_transform :: "'s transform" where
  "base_transform st child = Inr (None, attrib_of child, st)"

subsection \<open>\<open>ConfluenceStorageFormatConverter\<close>\<close>

record converter =
  links :: "string list"
  images :: "string list"

definition converter_init :: converter where
  "converter_init = \<lparr>links = [], images = []\<rparr>"

definition transform_link :: "library \<Rightarrow> converter \<Rightarrow> node \<Rightarrow> error + (node option \<times> converter)" where
  "transform_link L st anchor =
     (case attrib_get anchor ''href'' of
        None \<Rightarrow> Inl (KeyError ''href'')
      | Some url \<Rightarrow>
          (case is_absolute_url L url of
             Inl e \<Rightarrow> Inl e
           | Inr absolute \<Rightarrow>
               if \<not> absolute then Inr (None, st\<lparr>links := links st @ [url]\<rparr>)
               else Inr (None, st)))"

definition transform_image :: "library \<Rightarrow> converter \<Rightarrow> node \<Rightarrow> error + (node option \<times> converter)" where
  \<open>transform_image L st img =
     (case attrib_get img ''src'' of
        None \<Rightarrow> Inl (KeyError ''src'')
      | Some path \<Rightarrow>
          (let st1 = st\<lparr>images := images st @ [path]\<rparr>
           in case attrib_get img ''alt'' of
                None \<Rightarrow> Inl (KeyError ''alt'')
              | Some caption \<Rightarrow>
                  (case element_from_string_list L
                          [''<ac:image ac:align="center" ac:layout="center">'',
                           ''<ri:attachment ri:filename="'' @ path @ ''" />'',
                           ''<ac:caption><p>'' @ caption @ ''</p></ac:caption>'',
                           ''</ac:image>'']
                   of Inl e \<Rightarrow> Inl e
                    | Inr el \<Rightarrow> Inr (Some el, st1))))\<close>

text \<open>
  Lines 135 to 139 of \<open>_transform_block\<close>: the language the macro is given. An absent or empty
  class attribute skips the match; a failed match has no \<open>group\<close>.
\<close>

definition block_language :: "node \<Rightarrow> error + string" where
  "block_language code =
     (case (case attrib_get code ''class'' of
              None \<Rightarrow> Inr None
            | Some language \<Rightarrow>
                if language \<noteq> [] then
                  (case re_match_language language of
                     None \<Rightarrow> Inl AttributeError
                   | Some g \<Rightarrow> Inr (Some g))
                else Inr (Some language))
      of Inl e \<Rightarrow> Inl e
       | Inr language \<Rightarrow>
           (case language of
              None \<Rightarrow> Inr ''none''
            | Some l \<Rightarrow> if l \<notin> set languages then Inr ''none'' else Inr l))"

text \<open>What an f-string prints for \<open>code.text\<close>.\<close>

definition format_text :: "string option \<Rightarrow> string" where
  "format_text t = (case t of None \<Rightarrow> ''None'' | Some s \<Rightarrow> s)"

definition transform_block :: "library \<Rightarrow> converter \<Rightarrow> node \<Rightarrow> error + (node option \<times> converter)" where
  \<open>transform_block L st code =
     (case block_language code of
        Inl e \<Rightarrow> Inl e
      | Inr language \<Rightarrow>
          (let content = text_of code
           in case element_from_string_list L
                     [''<ac:structured-macro ac:name="code" ac:schema-version="1">'',
                      ''<ac:parameter ac:name="theme">Midnight</ac:parameter>'',
                      ''<ac:parameter ac:name="language">'' @ language @ ''</ac:parameter>'',
                      ''<ac:parameter ac:name="linenumbers">true</ac:parameter>'',
                      ''<ac:plain-text-body><![CDATA['' @ format_text content
                         @ '']]></ac:plain-text-body>'',
                      ''</ac:structured-macro>'']
              of Inl e \<Rightarrow> Inl e
               | Inr el \<Rightarrow> Inr (Some el, st)))\<close>

definition keep_attrib ::
  "node \<Rightarrow> error + (node option \<times> 's) \<Rightarrow> error + (node option \<times> (string \<times> string) list \<times> 's)" where
  "keep_attrib child r =
     (case r of Inl e \<Rightarrow> Inl e | Inr (target, st) \<Rightarrow> Inr (target, attrib_of child, st))"

definition converter_transform :: "library \<Rightarrow> converter transform" where
  "converter_transform L st child =
     (if tag_is child ''p'' \<and> len child = 1 \<and> tag_is (children_of child ! 0) ''img'' then
        keep_attrib child (transform_image L st (children_of child ! 0))
      else if tag_is child ''img'' then
        keep_attrib child (transform_image L st child)
      else if tag_is child ''a'' then
        keep_attrib child (transform_link L st child)
      else if tag_is child ''pre'' \<and> len child = 1 \<and> tag_is (children_of child ! 0) ''code'' then
        keep_attrib child (transform_block L st (children_of child ! 0))
      else Inr (None, attrib_of child, st))"

subsection \<open>\<open>ConfluenceStorageFormatCleaner\<close>\<close>

definition macro_id :: string where
  "macro_id = ''{http://atlassian.com/content}macro-id''"

definition version_at_save :: string where
  "version_at_save = ''{http://atlassian.com/resource/identifier}version-at-save''"

definition attrib_pop :: "string \<Rightarrow> (string \<times> string) list \<Rightarrow> (string \<times> string) list" where
  "attrib_pop key a = filter (\<lambda>kv. fst kv \<noteq> key) a"

text \<open>
  The two calls of \<open>pop\<close>, on every child the visitor hands over. On an element they take the
  key out of its attributes. On a comment each call is the library's; when both return, the
  comment is as it was.
\<close>

definition cleaner_transform :: "library \<Rightarrow> unit transform" where
  "cleaner_transform L st child =
     (case child of
        Element t a x cs tlc \<Rightarrow>
          Inr (None, attrib_pop version_at_save (attrib_pop macro_id a), st)
      | Comment c tlc \<Rightarrow>
          (case comment_attrib_pop L macro_id of
             Some e \<Rightarrow> Inl e
           | None \<Rightarrow>
               (case comment_attrib_pop L version_at_save of
                  Some e \<Rightarrow> Inl e
                | None \<Rightarrow> Inr (None, [], st))))"

text \<open>
  What the transform of the cleaner raises on a comment, when it raises: the exception of the
  first of its two calls of \<open>pop\<close> that fails.
\<close>

definition comment_failure :: "library \<Rightarrow> error option" where
  "comment_failure L =
     (case comment_attrib_pop L macro_id of
        Some e \<Rightarrow> Some e
      | None \<Rightarrow> comment_attrib_pop L version_at_save)"

subsection \<open>\<open>ConfluenceDocument\<close>, \<open>sanitize_confluence\<close>, \<open>_content_to_string\<close>\<close>

record confluence_document =
  doc_id :: string
  doc_links :: "string list"
  doc_images :: "string list"
  doc_root :: node

definition content_to_string :: "library \<Rightarrow> node \<Rightarrow> error + string" where
  "content_to_string L root =
     (case tostring L root of
        Inl e \<Rightarrow> Inl e
      | Inr xml \<Rightarrow>
          (case re_match_root xml of
             None \<Rightarrow> Inl AttributeError
           | Some g \<Rightarrow> Inr g))"

definition document_fragments :: "string \<Rightarrow> nat \<Rightarrow> nat \<Rightarrow> string list" where
  \<open>document_fragments html m_start m_end =
     [''<ac:structured-macro ac:name="info" ac:schema-version="1">'',
      ''<ac:rich-text-body><p>This page has been generated with a tool.</p></ac:rich-text-body>'',
      ''</ac:structured-macro>'',
      take m_start html,
      drop m_end html]\<close>

definition ConfluenceDocument_init :: "library \<Rightarrow> string \<Rightarrow> error + confluence_document" where
  "ConfluenceDocument_init L html =
     (case re_search_page_id 0 html of
        None \<Rightarrow> Inl AttributeError
      | Some (m_start, m_end, group1) \<Rightarrow>
          (case element_from_string_list L (document_fragments html m_start m_end) of
             Inl e \<Rightarrow> Inl e
           | Inr root \<Rightarrow>
               (case visit (converter_transform L) converter_init root of
                  Inl e \<Rightarrow> Inl e
                | Inr (root', c) \<Rightarrow>
                    Inr \<lparr>doc_id = group1, doc_links = links c, doc_images = images c,
                         doc_root = root'\<rparr>)))"

definition xhtml :: "library \<Rightarrow> confluence_document \<Rightarrow> error + string" where
  "xhtml L d = content_to_string L (doc_root d)"

definition sanitize_confluence :: "library \<Rightarrow> string \<Rightarrow> error + string" where
  "sanitize_confluence L html =
     (case element_from_string L html of
        Inl e \<Rightarrow> Inl e
      | Inr root \<Rightarrow>
          (case visit (cleaner_transform L) () root of
             Inl e \<Rightarrow> Inl e
           | Inr (root', u) \<Rightarrow> content_to_string L root'))"

section \<open>Executable models of the libraries\<close>

text \<open>
  To run the source on concrete documents the library calls need values. The models of the
  parser, the serializer and \<open>urlparse\<close> below compute what the libraries return on a part of
  their inputs that is enough for the documents evaluated in this theory, and answer
  \<open>XMLUnmodelled\<close> or \<open>Unmodelled\<close> elsewhere. Statements about all documents do not use them,
  except where they say so.
\<close>

subsection \<open>The XML parser\<close>

text \<open>
  The parser the source configures keeps comments and CDATA sections and removes blank
  text. The model reads elements with double-quoted attributes, character data without
  references, comments and CDATA sections. Errors of nesting (an end tag that does not match,
  a missing end tag, content after the document element) are syntax errors with a diagnostic;
  the text of the diagnostic is the model's own.
\<close>

definition xml_space :: "char \<Rightarrow> bool" where
  "xml_space c = (c = CHR '' '' \<or> c = CHR 0x09 \<or> c = CHR 0x0A \<or> c = CHR 0x0D)"

definition name_start :: "char \<Rightarrow> bool" where
  "name_start c =
     (let k = (of_char c :: nat)
      in (65 \<le> k \<and> k \<le> 90) \<or> (97 \<le> k \<and> k \<le> 122) \<or> c = CHR ''_'' \<or> c = CHR '':'')"

definition name_char :: "char \<Rightarrow> bool" where
  "name_char c = (name_start c \<or> py_isdigit c \<or> c = CHR ''-'' \<or> c = CHR ''.'')"

definition modelled_char :: "char \<Rightarrow> bool" where
  "modelled_char c =
     (let k = (of_char c :: nat) in (32 \<le> k \<and> k \<le> 126) \<or> k = 9 \<or> k = 10)"

fun find_sub :: "string \<Rightarrow> string \<Rightarrow> (string \<times> string) option" where
  "find_sub d [] = (if d = [] then Some ([], []) else None)"
| "find_sub d (c # cs) =
     (if startswith (c # cs) d then Some ([], drop (length d) (c # cs))
      else (case find_sub d cs of None \<Rightarrow> None | Some (a, b) \<Rightarrow> Some (c # a, b)))"

datatype token =
    TOpen string "(string \<times> string) list" bool
  | TClose string
  | TText string
  | TCData string
  | TComment string

definition valid_name :: "string \<Rightarrow> bool" where
  "valid_name n = (n \<noteq> [] \<and> name_start (hd n) \<and> list_all name_char n)"

function parse_attrs :: "string \<Rightarrow> xml_syntax_error + ((string \<times> string) list \<times> bool \<times> string)" where
  "parse_attrs s =
     (let s1 = dropWhile xml_space s
      in if startswith s1 ''>'' then Inr ([], False, drop 1 s1)
         else if startswith s1 ''/>'' then Inr ([], True, drop 2 s1)
         else if length s1 = length s then Inl XMLUnmodelled
         else
           (let name = takeWhile name_char s1
            in if \<not> valid_name name then Inl XMLUnmodelled
               else
                 (case dropWhile name_char s1 of
                    [] \<Rightarrow> Inl XMLUnmodelled
                  | e # s2 \<Rightarrow>
                      if e \<noteq> CHR ''='' then Inl XMLUnmodelled
                      else
                        (case s2 of
                           [] \<Rightarrow> Inl XMLUnmodelled
                         | q # s3 \<Rightarrow>
                             if q \<noteq> CHR 0x22 then Inl XMLUnmodelled
                             else
                               (let v = takeWhile (\<lambda>c. c \<noteq> CHR 0x22) s3
                                in case dropWhile (\<lambda>c. c \<noteq> CHR 0x22) s3 of
                                     [] \<Rightarrow> Inl XMLUnmodelled
                                   | _ # s4 \<Rightarrow>
                                       if \<not> list_all (\<lambda>c. c \<noteq> CHR ''<'' \<and> c \<noteq> CHR ''&'' \<and> \<not> xml_space c \<or> c = CHR '' '') v
                                       then Inl XMLUnmodelled
                                       else
                                         (case parse_attrs s4 of
                                            Inl e \<Rightarrow> Inl e
                                          | Inr (as, sc, rest) \<Rightarrow> Inr ((name, v) # as, sc, rest)))))))"
  by pat_completeness auto

lemma length_dropWhile_tail:
  "dropWhile P s = c # r \<Longrightarrow> length r < length s"
  using length_dropWhile_le[of P s] by simp

termination parse_attrs
proof (relation "measure length", goal_cases)
  case 1
  show ?case by simp
next
  case (2 s s1 name e s2 q s3 v x s4)
  have a: "length s4 < length s3" using 2 by (auto dest: length_dropWhile_tail)
  have b: "length s2 < length s1" using 2 by (auto dest: length_dropWhile_tail)
  have c: "length s1 \<le> length s" using 2 by (simp add: length_dropWhile_le)
  show ?case using a b c 2 by simp
qed

declare parse_attrs.simps [simp del]

lemma parse_attrs_shorter:
  "parse_attrs s = Inr (as, sc, rest) \<Longrightarrow> length rest \<le> length s"
proof (induction s arbitrary: as sc rest rule: parse_attrs.induct)
  case (1 s)
  define s1 where "s1 = dropWhile xml_space s"
  have s1: "length s1 \<le> length s" by (simp add: s1_def length_dropWhile_le)
  show ?case
  proof (cases "startswith s1 ''>'' \<or> startswith s1 ''/>''")
    case True
    then show ?thesis using 1(2) s1
      by (subst (asm) parse_attrs.simps) (auto simp: s1_def[symmetric] Let_def split: if_splits)
  next
    case False
    from 1(2) False obtain name e s2 q s3 x s4 as' where
      n: "name = takeWhile name_char s1" "valid_name name" "length s1 \<noteq> length s"
      and d1: "dropWhile name_char s1 = e # s2" "s2 = q # s3"
      and d2: "dropWhile (\<lambda>c. c \<noteq> CHR 0x22) s3 = x # s4"
      and r: "parse_attrs s4 = Inr (as', sc, rest)"
      and e: "e = CHR ''=''" "q = CHR 0x22"
      and ok: "list_all (\<lambda>c. c \<noteq> CHR ''<'' \<and> c \<noteq> CHR ''&'' \<and> \<not> xml_space c \<or> c = CHR '' '')
                 (takeWhile (\<lambda>c. c \<noteq> CHR 0x22) s3)"
      by (subst (asm) parse_attrs.simps)
         (auto simp: s1_def[symmetric] Let_def split: if_splits list.splits sum.splits)
    have "length rest \<le> length s4"
      using 1(1)[OF s1_def _ _ _ n(1) _ d1(1) _ d1(2) _ refl d2 _ r] False n e ok
      by (simp add: s1_def)
    moreover have "length s4 < length s3" using d2 by (rule length_dropWhile_tail)
    moreover have "length s2 < length s1" using d1(1) by (rule length_dropWhile_tail)
    ultimately show ?thesis using s1 d1(2) by simp
  qed
qed

text \<open>
  The tokens of a document. Anything lexically outside the modelled subset (entity and
  character references, processing instructions, declarations, single-quoted or unquoted
  attribute values, white space other than a blank inside an attribute value, a double hyphen
  inside a comment) gives \<open>XMLUnmodelled\<close>.
\<close>

function tokenize :: "string \<Rightarrow> xml_syntax_error + token list" where
  "tokenize s =
     (if s = [] then Inr []
      else if startswith s ''<!--'' then
        (case find_sub ''-->'' (drop 4 s) of
           None \<Rightarrow> Inl (XMLSyntaxError ''Comment not terminated'')
         | Some (c, rest) \<Rightarrow>
             if find_sub ''--'' c \<noteq> None \<or> (c \<noteq> [] \<and> last c = CHR ''-'') then Inl XMLUnmodelled
             else (case tokenize rest of Inl e \<Rightarrow> Inl e | Inr ts \<Rightarrow> Inr (TComment c # ts)))
      else if startswith s ''<![CDATA['' then
        (case find_sub '']]>'' (drop 9 s) of
           None \<Rightarrow> Inl (XMLSyntaxError ''CData section not finished'')
         | Some (c, rest) \<Rightarrow>
             (case tokenize rest of Inl e \<Rightarrow> Inl e | Inr ts \<Rightarrow> Inr (TCData c # ts)))
      else if startswith s ''</'' then
        (let name = takeWhile name_char (drop 2 s)
         in if \<not> valid_name name then Inl XMLUnmodelled
            else
              (case dropWhile xml_space (dropWhile name_char (drop 2 s)) of
                 [] \<Rightarrow> Inl XMLUnmodelled
               | g # rest \<Rightarrow>
                   if g \<noteq> CHR ''>'' then Inl XMLUnmodelled
                   else (case tokenize rest of Inl e \<Rightarrow> Inl e | Inr ts \<Rightarrow> Inr (TClose name # ts))))
      else if startswith s ''<'' then
        (let name = takeWhile name_char (drop 1 s)
         in if \<not> valid_name name then Inl XMLUnmodelled
            else
              (case parse_attrs (dropWhile name_char (drop 1 s)) of
                 Inl e \<Rightarrow> Inl e
               | Inr (as, sc, rest) \<Rightarrow>
                   (case tokenize rest of Inl e \<Rightarrow> Inl e | Inr ts \<Rightarrow> Inr (TOpen name as sc # ts))))
      else
        (let t = takeWhile (\<lambda>c. c \<noteq> CHR ''<'') s
         in if CHR ''&'' \<in> set t \<or> find_sub '']]>'' t \<noteq> None then Inl XMLUnmodelled
            else
              (case tokenize (dropWhile (\<lambda>c. c \<noteq> CHR ''<'') s) of
                 Inl e \<Rightarrow> Inl e
               | Inr ts \<Rightarrow> Inr (TText t # ts))))"
  by pat_completeness auto

lemma find_sub_shorter: "find_sub d s = Some (a, b) \<Longrightarrow> length b \<le> length s"
  by (induction s arbitrary: a) (auto split: if_splits option.splits)

lemma startswith_nonempty: "startswith s (p # ps) \<Longrightarrow> s \<noteq> []"
  by (cases s) auto

lemma dropWhile_not_lt_shorter:
  "s \<noteq> [] \<Longrightarrow> \<not> startswith s ''<'' \<Longrightarrow> length (dropWhile (\<lambda>c. c \<noteq> CHR ''<'') s) < length s"
  by (cases s) (auto simp: length_dropWhile_le less_Suc_eq_le)

termination tokenize
proof (relation "measure length", goal_cases)
  case 1
  show ?case by simp
next
  case (2 s x c rest)
  then show ?case
    using find_sub_shorter[of "''-->''" "drop 4 s" c rest] startswith_nonempty[of s]
    by (cases s) auto
next
  case (3 s x c rest)
  then show ?case
    using find_sub_shorter[of "'']]>''" "drop 9 s" c rest] startswith_nonempty[of s]
    by (cases s) auto
next
  case (4 s name g rest)
  have "length rest < length (dropWhile name_char (drop 2 s))"
    using 4 by (auto dest: length_dropWhile_tail)
  also have "\<dots> \<le> length (drop 2 s)" by (rule length_dropWhile_le)
  finally show ?case by simp
next
  case (5 s name x as y sc rest)
  have "length rest \<le> length (dropWhile name_char (drop 1 s))"
    using 5 by (auto dest: parse_attrs_shorter)
  also have "\<dots> \<le> length (drop 1 s)" by (rule length_dropWhile_le)
  also have "\<dots> < length s" using 5 by (cases s) auto
  finally show ?case by simp
next
  case (6 s t)
  then show ?case using dropWhile_not_lt_shorter[of s] by simp
qed

declare tokenize.simps [simp del]

text \<open>
  Names are resolved against the prefixes bound on the document element. A declaration on an
  inner element, a default namespace, an unbound prefix and a repeated attribute are outside the
  modelled subset.
\<close>

definition resolve_name :: "(string \<times> string) list \<Rightarrow> string \<Rightarrow> string option" where
  "resolve_name ns name =
     (case find_sub '':'' name of
        None \<Rightarrow> Some name
      | Some (p, l) \<Rightarrow>
          (case map_of ns p of
             None \<Rightarrow> None
           | Some uri \<Rightarrow>
               if l = [] \<or> CHR '':'' \<in> set l then None
               else Some (''{'' @ uri @ ''}'' @ l)))"

definition is_nsdecl :: "string \<Rightarrow> bool" where
  "is_nsdecl k = (k = ''xmlns'' \<or> startswith k ''xmlns:'')"

fun resolve_attrs ::
  "(string \<times> string) list \<Rightarrow> (string \<times> string) list \<Rightarrow> (string \<times> string) list option" where
  "resolve_attrs ns [] = Some []"
| "resolve_attrs ns ((k, v) # kvs) =
     (if is_nsdecl k then None
      else case resolve_name ns k of
             None \<Rightarrow> None
           | Some k' \<Rightarrow>
               (case resolve_attrs ns kvs of
                  None \<Rightarrow> None
                | Some r \<Rightarrow> if k' \<in> set (map fst r) then None else Some ((k', v) # r)))"

text \<open>An element under construction: the name as written, then what the element will hold.\<close>

record frame =
  raw_name :: string
  frame_tag :: string
  frame_attrib :: "(string \<times> string) list"
  frame_text :: "chunk list"
  frame_children :: "node list"

definition open_frame ::
  "(string \<times> string) list \<Rightarrow> string \<Rightarrow> (string \<times> string) list \<Rightarrow> frame option" where
  "open_frame ns name attrs =
     (case resolve_name ns name of
        None \<Rightarrow> None
      | Some t \<Rightarrow>
          (case resolve_attrs ns attrs of
             None \<Rightarrow> None
           | Some a \<Rightarrow>
               Some \<lparr>raw_name = name, frame_tag = t, frame_attrib = a, frame_text = [],
                     frame_children = []\<rparr>))"

definition close_frame :: "frame \<Rightarrow> node" where
  "close_frame f = Element (frame_tag f) (frame_attrib f) (frame_text f) (frame_children f) []"

fun append_tail :: "chunk \<Rightarrow> node \<Rightarrow> node" where
  "append_tail c (Element t a x cs tlc) = Element t a x cs (tlc @ [c])"
| "append_tail c (Comment d tlc) = Comment d (tlc @ [c])"

definition add_chunk :: "chunk \<Rightarrow> frame \<Rightarrow> frame" where
  "add_chunk c f =
     (if frame_children f = [] then f\<lparr>frame_text := frame_text f @ [c]\<rparr>
      else f\<lparr>frame_children :=
               butlast (frame_children f) @ [append_tail c (last (frame_children f))]\<rparr>)"

definition add_child :: "node \<Rightarrow> frame \<Rightarrow> frame" where
  "add_child n f = f\<lparr>frame_children := frame_children f @ [n]\<rparr>"

fun is_Text :: "chunk \<Rightarrow> bool" where
  "is_Text (Text _) = True"
| "is_Text (CData _) = False"

fun tail_of :: "node \<Rightarrow> chunk list" where
  "tail_of (Element _ _ _ _ tlc) = tlc"
| "tail_of (Comment _ tlc) = tlc"

text \<open>
  With \<open>remove_blank_text\<close> the parser drops a run of white space between two tags, unless the
  element is still empty and the run is followed by its end tag, or the node that precedes the
  run is text, or the first node of the element is text. A CDATA section is not text in this
  sense.
\<close>

definition last_is_text :: "frame \<Rightarrow> bool" where
  "last_is_text f =
     (if frame_children f = [] then frame_text f \<noteq> [] \<and> is_Text (last (frame_text f))
      else tail_of (last (frame_children f)) \<noteq> []
             \<and> is_Text (last (tail_of (last (frame_children f)))))"

definition first_is_text :: "frame \<Rightarrow> bool" where
  "first_is_text f = (frame_text f \<noteq> [] \<and> is_Text (hd (frame_text f)))"

definition keep_blank :: "frame \<Rightarrow> bool \<Rightarrow> bool" where
  "keep_blank f next_close =
     (if frame_text f = [] \<and> frame_children f = [] then next_close
      else last_is_text f \<or> first_is_text f)"

fun next_is_close :: "token list \<Rightarrow> bool" where
  "next_is_close (TClose _ # _) = True"
| "next_is_close _ = False"

definition root_bindings :: "(string \<times> string) list \<Rightarrow> (string \<times> string) list" where
  "root_bindings attrs =
     map (\<lambda>kv. (drop 6 (fst kv), snd kv)) (filter (\<lambda>kv. startswith (fst kv) ''xmlns:'') attrs)"

fun build ::
  "(string \<times> string) list \<Rightarrow> frame list \<Rightarrow> node option \<Rightarrow> token list \<Rightarrow> xml_syntax_error + node"
where
  "build ns stack None [] = Inl (XMLSyntaxError ''Premature end of data'')"
| "build ns stack (Some r) [] = Inr r"
| "build ns stack (Some r) (t # ts) =
     (case t of
        TComment c \<Rightarrow> build ns stack (Some r) ts
      | TText x \<Rightarrow>
          if list_all xml_space x then build ns stack (Some r) ts
          else Inl (XMLSyntaxError ''Extra content at the end of the document'')
      | _ \<Rightarrow> Inl (XMLSyntaxError ''Extra content at the end of the document''))"
| "build ns [] None (t # ts) =
     (case t of
        TOpen name attrs sc \<Rightarrow>
          (let bs = root_bindings attrs
           in if ''xmlns'' \<in> set (map fst attrs) \<or> [] \<in> set (map snd bs)
                 \<or> \<not> distinct (map fst bs) then Inl XMLUnmodelled
              else
                (case open_frame bs name (filter (\<lambda>kv. \<not> is_nsdecl (fst kv)) attrs) of
                   None \<Rightarrow> Inl XMLUnmodelled
                 | Some f \<Rightarrow>
                     if sc then build bs [] (Some (close_frame f)) ts
                     else build bs [f] None ts))
      | TComment c \<Rightarrow> build ns [] None ts
      | TText x \<Rightarrow>
          if list_all xml_space x then build ns [] None ts
          else Inl (XMLSyntaxError ''Start tag expected'')
      | _ \<Rightarrow> Inl (XMLSyntaxError ''Start tag expected''))"
| "build ns (f # fs) None (t # ts) =
     (case t of
        TOpen name attrs sc \<Rightarrow>
          (case open_frame ns name attrs of
             None \<Rightarrow> Inl XMLUnmodelled
           | Some g \<Rightarrow>
               if sc then build ns (add_child (close_frame g) f # fs) None ts
               else build ns (g # f # fs) None ts)
      | TClose name \<Rightarrow>
          if name \<noteq> raw_name f then Inl (XMLSyntaxError ''Opening and ending tag mismatch'')
          else
            (case fs of
               [] \<Rightarrow> build ns [] (Some (close_frame f)) ts
             | p # ps \<Rightarrow> build ns (add_child (close_frame f) p # ps) None ts)
      | TText x \<Rightarrow>
          if list_all xml_space x \<and> \<not> keep_blank f (next_is_close ts) then build ns (f # fs) None ts
          else build ns (add_chunk (Text x) f # fs) None ts
      | TCData x \<Rightarrow>
          if x = [] then Inl XMLUnmodelled
          else build ns (add_chunk (CData x) f # fs) None ts
      | TComment c \<Rightarrow> build ns (add_child (Comment c []) f # fs) None ts)"

text \<open>
  \<open>fromstringlist(data, parser)\<close> feeds the strings to the parser one after the other. The
  model knows the declaration line the source always sends first.
\<close>

definition lxml_fromstringlist :: "string list \<Rightarrow> xml_syntax_error + node" where
  \<open>lxml_fromstringlist data =
     (let s = concat data
      in if \<not> list_all modelled_char s then Inl XMLUnmodelled
         else
           (case strip_prefix ''<?xml version="1.0"?>'' s of
              None \<Rightarrow> Inl XMLUnmodelled
            | Some body \<Rightarrow>
                (case tokenize body of
                   Inl e \<Rightarrow> Inl e
                 | Inr ts \<Rightarrow> build [] [] None ts)))\<close>

subsection \<open>The XML serializer\<close>

text \<open>
  \<open>tostring(node, encoding="utf8", method="xml")\<close>, decoded. Tags and attribute names go back to
  the two prefixes the source binds; a name in another namespace is outside the modelled subset.
  The element handed to \<open>tostring\<close> carries the declarations of both prefixes, whether it is the
  document element or one of its children, and the text after it is written too.
\<close>

definition ac_uri :: string where
  "ac_uri = ''http://atlassian.com/content''"

definition ri_uri :: string where
  "ri_uri = ''http://atlassian.com/resource/identifier''"

definition prefixed_name :: "string \<Rightarrow> string option" where
  "prefixed_name t =
     (case strip_prefix ''{'' t of
        None \<Rightarrow> Some t
      | Some r \<Rightarrow>
          (case find_sub ''}'' r of
             None \<Rightarrow> None
           | Some (uri, l) \<Rightarrow>
               if uri = ac_uri then Some (''ac:'' @ l)
               else if uri = ri_uri then Some (''ri:'' @ l)
               else None))"

fun escape_text :: "string \<Rightarrow> string" where
  "escape_text [] = []"
| "escape_text (c # cs) =
     (if c = CHR ''<'' then ''&lt;''
      else if c = CHR ''>'' then ''&gt;''
      else if c = CHR ''&'' then ''&amp;''
      else if c = CHR 0x0D then ''&#13;''
      else [c]) @ escape_text cs"

fun escape_attr :: "string \<Rightarrow> string" where
  "escape_attr [] = []"
| \<open>escape_attr (c # cs) =
     (if c = CHR ''<'' then ''&lt;''
      else if c = CHR ''>'' then ''&gt;''
      else if c = CHR ''&'' then ''&amp;''
      else if c = CHR 0x22 then ''&quot;''
      else if c = CHR 0x09 then ''&#9;''
      else if c = CHR 0x0A then ''&#10;''
      else if c = CHR 0x0D then ''&#13;''
      else [c]) @ escape_attr cs\<close>

fun ser_chunk :: "chunk \<Rightarrow> string" where
  "ser_chunk (Text s) = escape_text s"
| "ser_chunk (CData s) = ''<![CDATA['' @ s @ '']]>''"

fun ser_attrs :: "(string \<times> string) list \<Rightarrow> string option" where
  "ser_attrs [] = Some []"
| \<open>ser_attrs ((k, v) # kvs) =
     (case prefixed_name k of
        None \<Rightarrow> None
      | Some k' \<Rightarrow>
          (case ser_attrs kvs of
             None \<Rightarrow> None
           | Some r \<Rightarrow> Some ('' '' @ k' @ ''="'' @ escape_attr v @ [CHR 0x22] @ r)))\<close>

fun ser :: "string \<Rightarrow> node \<Rightarrow> string option"
  and ser_children :: "node list \<Rightarrow> string option"
where
  "ser decl (Element t a x cs tlc) =
     (case prefixed_name t of
        None \<Rightarrow> None
      | Some name \<Rightarrow>
          (case ser_attrs a of
             None \<Rightarrow> None
           | Some attrs \<Rightarrow>
               (case ser_children cs of
                  None \<Rightarrow> None
                | Some inner \<Rightarrow>
                    Some (''<'' @ name @ decl @ attrs
                          @ (if x = [] \<and> cs = [] then ''/>''
                             else ''>'' @ concat (map ser_chunk x) @ inner @ ''</'' @ name @ ''>'')
                          @ concat (map ser_chunk tlc)))))"
| "ser decl (Comment c tlc) = Some (''<!--'' @ c @ ''-->'' @ concat (map ser_chunk tlc))"
| "ser_children [] = Some []"
| "ser_children (n # ns) =
     (case ser [] n of
        None \<Rightarrow> None
      | Some s \<Rightarrow> (case ser_children ns of None \<Rightarrow> None | Some r \<Rightarrow> Some (s @ r)))"

definition lxml_tostring :: "node \<Rightarrow> error + string" where
  \<open>lxml_tostring n =
     (case ser '' xmlns:ac="http://atlassian.com/content" xmlns:ri="http://atlassian.com/resource/identifier"'' n of
        None \<Rightarrow> Inl Unmodelled
      | Some s \<Rightarrow> Inr s)\<close>

subsection \<open>\<open>urllib.parse\<close>\<close>

text \<open>
  \<open>urlparse(url).netloc\<close> as \<open>urlsplit\<close> of Python 3.11 computes it: leading control characters
  and blanks are stripped, tabs and line breaks removed, a scheme is split off, and what follows
  \<open>//\<close> up to the next \<open>/\<close>, \<open>?\<close> or \<open>#\<close> is the network location. A bracket without its partner
  raises \<open>ValueError\<close>. A host in brackets is then validated as an address and a location with
  characters beyond ASCII is normalised; neither is modelled.
\<close>

definition scheme_char :: "char \<Rightarrow> bool" where
  "scheme_char c =
     (let k = (of_char c :: nat)
      in (65 \<le> k \<and> k \<le> 90) \<or> (97 \<le> k \<and> k \<le> 122) \<or> (48 \<le> k \<and> k \<le> 57)
         \<or> c = CHR ''+'' \<or> c = CHR ''-'' \<or> c = CHR ''.'')"

definition ascii_alpha :: "char \<Rightarrow> bool" where
  "ascii_alpha c =
     (let k = (of_char c :: nat) in (65 \<le> k \<and> k \<le> 90) \<or> (97 \<le> k \<and> k \<le> 122))"

definition split_scheme :: "string \<Rightarrow> string" where
  "split_scheme url =
     (let head = takeWhile (\<lambda>c. c \<noteq> CHR '':'') url
      in if length head < length url \<and> head \<noteq> [] \<and> ascii_alpha (hd url)
            \<and> list_all scheme_char head
         then drop (Suc (length head)) url
         else url)"

definition py_urlparse_netloc :: "string \<Rightarrow> error + string" where
  "py_urlparse_netloc url0 =
     (let url1 = dropWhile (\<lambda>c. (of_char c :: nat) \<le> 32) url0;
          url2 = filter (\<lambda>c. c \<noteq> CHR 0x09 \<and> c \<noteq> CHR 0x0D \<and> c \<noteq> CHR 0x0A) url1;
          url3 = split_scheme url2
      in if take 2 url3 = ''//'' then
           (let netloc = takeWhile (\<lambda>c. c \<noteq> CHR ''/'' \<and> c \<noteq> CHR ''?'' \<and> c \<noteq> CHR ''#'') (drop 2 url3)
            in if (CHR ''['' \<in> set netloc \<and> CHR '']'' \<notin> set netloc)
                  \<or> (CHR '']'' \<in> set netloc \<and> CHR ''['' \<notin> set netloc) then Inl ValueError
               else if CHR ''['' \<in> set netloc \<and> CHR '']'' \<in> set netloc then Inl Unmodelled
               else if \<not> list_all (\<lambda>c. (of_char c :: nat) < 128) netloc then Inl Unmodelled
               else Inr netloc)
         else Inr [])"

subsection \<open>The attributes of a comment\<close>

text \<open>
  \<open>comment.attrib\<close> is the library's immutable empty mapping. It has \<open>get\<close>, \<open>keys\<close> and the
  other methods that read a mapping and none that change it, so \<open>comment.attrib.pop\<close> raises
  \<open>AttributeError\<close> whatever the key.
\<close>

definition lxml_comment_attrib_pop :: "string \<Rightarrow> error option" where
  "lxml_comment_attrib_pop key = Some AttributeError"

definition python :: library where
  "python = \<lparr>fromstringlist = lxml_fromstringlist, tostring = lxml_tostring,
             urlparse_netloc = py_urlparse_netloc,
             comment_attrib_pop = lxml_comment_attrib_pop\<rparr>"

section \<open>The visitor, as the specification words it\<close>

text \<open>
  The specification: for each child in order, compute the transform; a non-empty result
  replaces the child and is not entered; otherwise the visit continues in the child itself. The
  function below is written from these words, by recursion on the list of children; it does not
  use an index.
\<close>

function visit_children_spec ::
  "'s transform \<Rightarrow> 's \<Rightarrow> node list \<Rightarrow> error + (node list \<times> 's)"
where
  "visit_children_spec tr st [] = Inr ([], st)"
| "visit_children_spec tr st (child # rest) =
     (case tr st child of
        Inl e \<Rightarrow> Inl e
      | Inr (Some transformed, a, st1) \<Rightarrow>
          (case visit_children_spec tr st1 rest of
             Inl e \<Rightarrow> Inl e
           | Inr (rest', st2) \<Rightarrow> Inr (transformed # rest', st2))
      | Inr (None, a, st1) \<Rightarrow>
          (case visit_children_spec tr st1 (children_of child) of
             Inl e \<Rightarrow> Inl e
           | Inr (grand, st2) \<Rightarrow>
               (case visit_children_spec tr st2 rest of
                  Inl e \<Rightarrow> Inl e
                | Inr (rest', st3) \<Rightarrow>
                    Inr (set_children (set_attrib child a) grand # rest', st3))))"
  by pat_completeness auto

lemma weight_children_of_add: "sum_list (map weight (children_of n)) < weight n + k"
  by (cases n) auto

lemma weight_add_pos: "k < weight n + k"
  using weight_pos[of n] by simp

termination visit_children_spec
proof (relation "measure (\<lambda>(tr, st, cs). sum_list (map weight cs))", goal_cases)
  case 1
  show ?case by simp
next
  case 2
  then show ?case by (simp add: weight_children_of_add weight_add_pos weight_pos)
next
  case 3
  then show ?case by (simp add: weight_children_of_add weight_add_pos weight_pos)
next
  case 4
  then show ?case by (simp add: weight_children_of_add weight_add_pos weight_pos)
qed

declare visit_children_spec.simps(2) [simp del]

definition visit_spec :: "'s transform \<Rightarrow> 's \<Rightarrow> node \<Rightarrow> error + (node \<times> 's)" where
  "visit_spec tr st node =
     (if children_of node = [] then Inr (node, st)
      else case visit_children_spec tr st (children_of node) of
             Inl e \<Rightarrow> Inl e
           | Inr (cs, st') \<Rightarrow> Inr (set_children node cs, st'))"

section \<open>The cleaner, as the specification words it\<close>

text \<open>
  What the specification says of the cleaner: both volatile attributes are removed from a node
  and from every node below it, and nothing else changes.
\<close>

fun strip_volatile :: "node \<Rightarrow> node" where
  "strip_volatile (Element t a x cs tlc) =
     Element t (attrib_pop version_at_save (attrib_pop macro_id a)) x (map strip_volatile cs) tlc"
| "strip_volatile (Comment c tlc) = Comment c tlc"

text \<open>A node and all nodes below it carry neither volatile attribute.\<close>

fun no_volatile :: "node \<Rightarrow> bool" where
  "no_volatile (Element t a x cs tlc) =
     (macro_id \<notin> set (map fst a) \<and> version_at_save \<notin> set (map fst a) \<and> list_all no_volatile cs)"
| "no_volatile (Comment c tlc) = True"

text \<open>A node is an element and so is every node below it.\<close>

fun elements_only :: "node \<Rightarrow> bool" where
  "elements_only (Element t a x cs tlc) = list_all elements_only cs"
| "elements_only (Comment c tlc) = False"

section \<open>Identifier comments in a string\<close>

text \<open>
  The positions at which an identifier comment starts, from left to right. A string contains
  as many identifier comments as this list has entries.
\<close>

fun id_comment_positions :: "nat \<Rightarrow> string \<Rightarrow> nat list" where
  "id_comment_positions pos [] = []"
| "id_comment_positions pos (c # cs) =
     (if match_page_id (c # cs) \<noteq> None then [pos] else []) @ id_comment_positions (Suc pos) cs"

text \<open>
  What the pattern of the identifier comment says, without reference to a matcher: the text of
  a comment with the captured digits.
\<close>

definition is_id_comment :: "string \<Rightarrow> string \<Rightarrow> bool" where
  "is_id_comment c digits \<longleftrightarrow>
     (\<exists>ws1 ws2 ws3.
        c = ''<!--'' @ ws1 @ ''confluence-page-id:'' @ ws2 @ digits @ ws3 @ ''-->''
        \<and> ws1 \<noteq> [] \<and> list_all py_isspace ws1
        \<and> list_all py_isspace ws2
        \<and> digits \<noteq> [] \<and> list_all py_isdigit digits
        \<and> ws3 \<noteq> [] \<and> list_all py_isspace ws3)"

section \<open>Facts about the tree operations\<close>

lemma len_children_of: "len n = length (children_of n)"
  by (cases n) auto

lemma getitem_children_of:
  "getitem n i = (if i < length (children_of n) then Inr (children_of n ! i) else Inl IndexError)"
  by (cases n) auto

lemma setitem_children_of: "setitem n i v = set_children n ((children_of n)[i := v])"
  by (cases n) auto

lemma children_of_set_children:
  "children_of n \<noteq> [] \<Longrightarrow> children_of (set_children n cs) = cs"
  by (cases n) auto

lemma set_children_twice: "set_children (set_children n cs) ds = set_children n ds"
  by (cases n) auto

lemma set_children_self: "set_children n (children_of n) = n"
  by (cases n) auto

lemma set_children_nil: "children_of n = [] \<Longrightarrow> set_children n [] = n"
  by (cases n) auto

lemma children_of_set_attrib: "children_of (set_attrib n a) = children_of n"
  by (cases n) auto

lemma set_attrib_self: "set_attrib n (attrib_of n) = n"
  by (cases n) auto

lemma attrib_of_set_children: "attrib_of (set_children n cs) = attrib_of n"
  by (cases n) auto

section \<open>The index loop computes what the specification describes\<close>

lemma visit_refines:
  "visit tr st node = visit_spec tr st node"
  "index \<le> n \<Longrightarrow> n = len node \<Longrightarrow>
   visit_range tr st node index n =
     (case visit_children_spec tr st (drop index (children_of node)) of
        Inl e \<Rightarrow> Inl e
      | Inr (cs, st') \<Rightarrow> Inr (set_children node (take index (children_of node) @ cs), st'))"
proof (induction tr st node and tr st node index n rule: visit_visit_range.induct)
  case (1 tr st node)
  show ?case
  proof (cases "len node < 1")
    case True
    then show ?thesis by (simp add: visit.simps visit_spec_def len_children_of)
  next
    case False
    then have ne: "children_of node \<noteq> []" by (simp add: len_children_of)
    from 1[OF False] have "visit_range tr st node 0 (len node) =
      (case visit_children_spec tr st (children_of node) of
        Inl e \<Rightarrow> Inl e
      | Inr (cs, st') \<Rightarrow> Inr (set_children node cs, st'))"
      by (simp split: sum.splits prod.splits)
    then show ?thesis using False ne by (simp add: visit.simps visit_spec_def)
  qed
next
  case (2 tr st node index n)
  show ?case
  proof (cases "index < n")
    case False
    with 2(4,5) have "index = length (children_of node)" by (simp add: len_children_of)
    then show ?thesis using False by (simp add: visit_range.simps set_children_self)
  next
    case True
    define cs where "cs = children_of node"
    have lt: "index < length cs" using True 2(5) by (simp add: len_children_of cs_def)
    have ne: "children_of node \<noteq> []" using lt cs_def by auto
    have gi: "getitem node index = Inr (cs ! index)"
      using lt by (simp add: getitem_children_of cs_def)
    have dr: "drop index cs = cs ! index # drop (Suc index) cs"
      using lt by (simp add: Cons_nth_drop_Suc)
    have tk: "\<And>v. take (Suc index) (cs[index := v]) = take index cs @ [v]"
      using lt by (simp add: take_Suc_conv_app_nth)
    have dr2: "\<And>v. drop (Suc index) (cs[index := v]) = drop (Suc index) cs" by simp
    have len2: "\<And>v. n = len (setitem node index v)"
      using 2(5) ne
      by (simp add: setitem_children_of len_children_of children_of_set_children cs_def)
    have ch2: "\<And>v. children_of (setitem node index v) = cs[index := v]"
      using ne by (simp add: setitem_children_of children_of_set_children cs_def)
    have sc2: "\<And>v ds. set_children (setitem node index v) ds = set_children node ds"
      by (simp add: setitem_children_of set_children_twice)
    have le2: "Suc index \<le> n" using True by simp
    show ?thesis
    proof (cases "tr st (cs ! index)")
      case (Inl e)
      then show ?thesis using True gi dr
        by (simp add: visit_range.simps visit_children_spec.simps(2) cs_def[symmetric])
    next
      case (Inr r)
      obtain target a st1 where r: "r = (target, a, st1)" by (cases r) auto
      show ?thesis
      proof (cases target)
        case (Some t)
        have "visit_range tr st1 (setitem node index t) (Suc index) n =
          (case visit_children_spec tr st1 (drop (Suc index) cs) of
             Inl e \<Rightarrow> Inl e
           | Inr (ds, st') \<Rightarrow> Inr (set_children node (take index cs @ t # ds), st'))"
          using 2(3)[OF True gi Inr[unfolded r Some] refl refl refl le2 len2]
          by (simp add: ch2 sc2 tk dr2 split: sum.splits prod.splits)
        then show ?thesis using True gi dr Inr r Some
          by (simp add: visit_range.simps visit_children_spec.simps(2) cs_def[symmetric]
                   split: sum.splits)
      next
        case None
        let ?src = "set_attrib (cs ! index) a"
        have v: "visit tr st1 ?src = visit_spec tr st1 ?src"
          using 2(1)[OF True gi Inr[unfolded r None] refl refl refl] .
        show ?thesis
        proof (cases "visit tr st1 ?src")
          case (Inl e)
          then have "visit_children_spec tr st1 (children_of (cs ! index)) = Inl e"
            using v
            by (auto simp: visit_spec_def children_of_set_attrib split: if_splits sum.splits)
          then show ?thesis using True gi dr \<open>tr st (cs ! index) = Inr r\<close> r None Inl
            by (simp add: visit_range.simps visit_children_spec.simps(2) cs_def[symmetric])
        next
          case vr: (Inr q)
          obtain source' st2 where q: "q = (source', st2)" by (cases q) auto
          have a: "visit_children_spec tr st1 (children_of (cs ! index)) =
                  Inr (children_of source', st2) \<and>
                source' = set_children ?src (children_of source')"
            using v vr q
            by (auto simp: visit_spec_def children_of_set_attrib set_children_self
                           children_of_set_children set_children_nil
                     split: if_splits sum.splits)
          have b: "visit_range tr st2 (setitem node index source') (Suc index) n =
          (case visit_children_spec tr st2 (drop (Suc index) cs) of
             Inl e \<Rightarrow> Inl e
           | Inr (ds, st') \<Rightarrow> Inr (set_children node (take index cs @ source' # ds), st'))"
            using 2(2)[OF True gi Inr[unfolded r None] refl refl refl vr[unfolded q] refl le2 len2]
            by (simp add: ch2 sc2 tk dr2 split: sum.splits prod.splits)
          from a have a1: "visit_children_spec tr st1 (children_of (cs ! index)) =
                  Inr (children_of source', st2)"
            and a2: "set_children ?src (children_of source') = source'" by simp_all
          show ?thesis using True gi dr Inr r None vr q a1 a2 b
            by (simp add: visit_range.simps visit_children_spec.simps(2) cs_def[symmetric]
                   split: sum.splits)
        qed
      qed
    qed
  qed
qed

lemma visit_children_spec_length:
  "visit_children_spec tr st cs = Inr (cs', st') \<Longrightarrow> length cs' = length cs"
proof (induction tr st cs arbitrary: cs' st' rule: visit_children_spec.induct)
  case (1 tr st)
  then show ?case by simp
next
  case (2 tr st child rest)
  show ?case
  proof (cases "tr st child")
    case (Inl e)
    with 2(4) show ?thesis by (simp add: visit_children_spec.simps(2))
  next
    case (Inr r)
    obtain target a st1 where r: "r = (target, a, st1)" by (cases r) auto
    show ?thesis
    proof (cases target)
      case (Some t)
      with 2(4) Inr r obtain rest' where
        "visit_children_spec tr st1 rest = Inr (rest', st')" "cs' = t # rest'"
        by (auto simp: visit_children_spec.simps(2) split: sum.splits)
      then show ?thesis using 2(3)[OF Inr[unfolded r Some] refl refl refl] by simp
    next
      case None
      with 2(4) Inr r obtain grand st2 rest' where
        g: "visit_children_spec tr st1 (children_of child) = Inr (grand, st2)"
        and "visit_children_spec tr st2 rest = Inr (rest', st')"
        and "cs' = set_children (set_attrib child a) grand # rest'"
        by (auto simp: visit_children_spec.simps(2) split: sum.splits)
      then show ?thesis using 2(2)[OF Inr[unfolded r None] refl refl refl g refl] by simp
    qed
  qed
qed
text \<open>A visit leaves the node itself as it was: only its children can differ.\<close>

lemma visit_keeps_node:
  assumes "visit tr st node = Inr (node', st')"
  shows "node' = set_children node (children_of node')"
    and "length (children_of node') = length (children_of node)"
proof -
  have v: "visit_spec tr st node = Inr (node', st')"
    using assms by (simp add: visit_refines(1))
  show "node' = set_children node (children_of node')"
    using v
    by (auto simp: visit_spec_def set_children_self set_children_nil children_of_set_children
             split: if_splits sum.splits)
  show "length (children_of node') = length (children_of node)"
    using v
    by (auto simp: visit_spec_def children_of_set_children
             split: if_splits sum.splits dest: visit_children_spec_length)
qed

section \<open>What the cleaner computes\<close>

lemma attrib_pop_absent: "k \<notin> set (map fst a) \<Longrightarrow> attrib_pop k a = a"
  by (induction a) (auto simp: attrib_pop_def)

lemma attrib_pop_removes: "k \<notin> set (map fst (attrib_pop k a))"
  by (induction a) (auto simp: attrib_pop_def)

lemma attrib_pop_keys: "set (map fst (attrib_pop k a)) \<subseteq> set (map fst a)"
  by (induction a) (auto simp: attrib_pop_def)

lemma no_volatile_strip: "no_volatile (strip_volatile n)"
proof (induction n)
  case (Element t a x cs tlc)
  have "macro_id \<notin> set (map fst (attrib_pop version_at_save (attrib_pop macro_id a)))"
    using attrib_pop_keys[of version_at_save "attrib_pop macro_id a"]
          attrib_pop_removes[of macro_id a] by blast
  moreover have "version_at_save \<notin> set (map fst (attrib_pop version_at_save (attrib_pop macro_id a)))"
    by (rule attrib_pop_removes)
  moreover have "list_all no_volatile (map strip_volatile cs)"
    using Element by (simp add: list_all_iff)
  ultimately show ?case by simp
next
  case (Comment c tlc)
  show ?case by simp
qed

lemma strip_no_volatile: "no_volatile n \<Longrightarrow> strip_volatile n = n"
proof (induction n)
  case (Element t a x cs tlc)
  then have "map strip_volatile cs = cs"
    by (simp add: list_all_iff map_idI)
  then show ?case using Element.prems by (simp add: attrib_pop_absent)
next
  case (Comment c tlc)
  show ?case by simp
qed

lemma cleaner_transform_comment:
  "cleaner_transform L st (Comment c tlc) =
     (case comment_failure L of Some e \<Rightarrow> Inl e | None \<Rightarrow> Inr (None, [], st))"
  by (simp add: cleaner_transform_def comment_failure_def split: option.splits)

lemma cleaner_transform_element:
  "cleaner_transform L st (Element t a x cs tlc) =
     Inr (None, attrib_pop version_at_save (attrib_pop macro_id a), st)"
  by (simp add: cleaner_transform_def)

lemma cleaner_children_spec:
  "visit_children_spec (cleaner_transform L) u cs =
     (case comment_failure L of
        Some e \<Rightarrow> if list_all elements_only cs then Inr (map strip_volatile cs, u) else Inl e
      | None \<Rightarrow> Inr (map strip_volatile cs, u))"
proof (induction cs arbitrary: u rule: measure_induct_rule[where f = "\<lambda>cs. sum_list (map weight cs)"])
  case (less cs)
  show ?case
  proof (cases cs)
    case Nil
    then show ?thesis by (simp split: option.splits)
  next
    case (Cons child rest)
    have r: "visit_children_spec (cleaner_transform L) u rest =
      (case comment_failure L of
         Some e \<Rightarrow> if list_all elements_only rest then Inr (map strip_volatile rest, u) else Inl e
       | None \<Rightarrow> Inr (map strip_volatile rest, u))"
      using less[of rest u] Cons weight_pos[of child] by simp
    show ?thesis
    proof (cases child)
      case (Comment c tlc)
      then show ?thesis using Cons r
        by (simp add: visit_children_spec.simps(2) cleaner_transform_comment split: option.splits)
    next
      case (Element t a x gs tlc)
      have g: "visit_children_spec (cleaner_transform L) u gs =
        (case comment_failure L of
           Some e \<Rightarrow> if list_all elements_only gs then Inr (map strip_volatile gs, u) else Inl e
         | None \<Rightarrow> Inr (map strip_volatile gs, u))"
        using less[of gs u] Cons Element by simp
      show ?thesis using Cons Element g r
        by (simp add: visit_children_spec.simps(2) cleaner_transform_element
              split: option.splits)
    qed
  qed
qed

lemma cleaner_visit:
  "visit (cleaner_transform L) u node =
     (case comment_failure L of
        Some e \<Rightarrow>
          if list_all elements_only (children_of node)
          then Inr (set_children node (map strip_volatile (children_of node)), u)
          else Inl e
      | None \<Rightarrow> Inr (set_children node (map strip_volatile (children_of node)), u))"
  by (cases "children_of node = []")
     (simp_all add: visit_refines(1) visit_spec_def cleaner_children_spec set_children_nil
        split: option.splits)

section \<open>What the matchers match\<close>

text \<open>
  The three matchers above are functions. The lemmas of this section say of each what it
  matches in the words of its pattern, so that a statement about a matcher is a statement about
  the pattern of the source.
\<close>

lemma startswith_iff: "startswith s p \<longleftrightarrow> (\<exists>r. s = p @ r)"
proof (induction s p rule: startswith.induct)
  case (1 s)
  show ?case by simp
next
  case (2 p ps)
  show ?case by simp
next
  case (3 c cs p ps)
  then show ?case by auto
qed

lemma strip_prefix_Some: "strip_prefix p s = Some r \<longleftrightarrow> s = p @ r"
  by (auto simp: strip_prefix_def startswith_iff)

lemma takeWhile_stop:
  "list_all P xs \<Longrightarrow> (ys = [] \<or> \<not> P (hd ys)) \<Longrightarrow> takeWhile P (xs @ ys) = xs"
  by (induction xs) (auto simp: takeWhile_eq_Nil_iff)

lemma dropWhile_stop:
  "list_all P xs \<Longrightarrow> (ys = [] \<or> \<not> P (hd ys)) \<Longrightarrow> dropWhile P (xs @ ys) = ys"
  by (induction xs) (auto simp: dropWhile_eq_self_iff)

lemma space_not_digit: "py_isspace c \<Longrightarrow> \<not> py_isdigit c"
  by (auto simp: py_isspace_def py_isdigit_def Let_def)

lemma match_page_id_sound:
  assumes "match_page_id s = Some (n, digits)"
  shows "\<exists>c rest. s = c @ rest \<and> n = length c \<and> is_id_comment c digits"
proof -
  from assms obtain s1 s3 s7 where
    s1: "s = ''<!--'' @ s1"
    and w1: "takeWhile py_isspace s1 \<noteq> []"
    and s3: "dropWhile py_isspace s1 = ''confluence-page-id:'' @ s3"
    and d: "digits = takeWhile py_isdigit (dropWhile py_isspace s3)" "digits \<noteq> []"
    and w3: "takeWhile py_isspace (dropWhile py_isdigit (dropWhile py_isspace s3)) \<noteq> []"
    and s7: "dropWhile py_isspace (dropWhile py_isdigit (dropWhile py_isspace s3)) = ''-->'' @ s7"
    and n: "n = length s - length s7"
    by (auto simp: match_page_id_def Let_def strip_prefix_Some split: option.splits if_splits)
  let ?ws1 = "takeWhile py_isspace s1"
  let ?ws2 = "takeWhile py_isspace s3"
  let ?s5 = "dropWhile py_isdigit (dropWhile py_isspace s3)"
  let ?ws3 = "takeWhile py_isspace ?s5"
  let ?c = "''<!--'' @ ?ws1 @ ''confluence-page-id:'' @ ?ws2 @ digits @ ?ws3 @ ''-->''"
  have "s1 = ?ws1 @ ''confluence-page-id:'' @ s3"
    using s3 takeWhile_dropWhile_id[of py_isspace s1] by simp
  moreover have "s3 = ?ws2 @ digits @ ?s5"
    using d(1) takeWhile_dropWhile_id[of py_isspace s3]
          takeWhile_dropWhile_id[of py_isdigit "dropWhile py_isspace s3"] by simp
  moreover have "?s5 = ?ws3 @ ''-->'' @ s7"
    using s7 takeWhile_dropWhile_id[of py_isspace ?s5] by simp
  ultimately have s: "s = ?c @ s7" using s1 by simp
  have c: "is_id_comment ?c digits"
    unfolding is_id_comment_def
    using w1 w3 d
    by (intro exI[of _ ?ws1] exI[of _ ?ws2] exI[of _ ?ws3])
       (auto simp: list_all_iff dest: set_takeWhileD)
  have "n = length ?c" using n s by (metis add_diff_cancel_right' length_append)
  then show ?thesis using s c by blast
qed

lemma match_page_id_complete:
  assumes "is_id_comment c digits"
  shows "match_page_id (c @ rest) = Some (length c, digits)"
proof -
  from assms obtain ws1 ws2 ws3 where
    c: "c = ''<!--'' @ ws1 @ ''confluence-page-id:'' @ ws2 @ digits @ ws3 @ ''-->''"
    and w1: "ws1 \<noteq> []" "list_all py_isspace ws1"
    and w2: "list_all py_isspace ws2"
    and d: "digits \<noteq> []" "list_all py_isdigit digits"
    and w3: "ws3 \<noteq> []" "list_all py_isspace ws3"
    by (auto simp: is_id_comment_def)
  let ?r7 = "rest"
  let ?r6 = "''-->'' @ ?r7"
  let ?r5 = "ws3 @ ?r6"
  let ?r4 = "digits @ ?r5"
  let ?r3 = "ws2 @ ?r4"
  let ?r2 = "''confluence-page-id:'' @ ?r3"
  let ?r1 = "ws1 @ ?r2"
  have nsp_c: "\<not> py_isspace (CHR ''c'')" and nsp_m: "\<not> py_isspace (CHR ''-'')"
    by (simp_all add: py_isspace_def)
  have hd_d: "py_isdigit (hd digits)" using d by (cases digits) auto
  have hd_w3: "py_isspace (hd ws3)" using w3 by (cases ws3) auto
  have t1: "takeWhile py_isspace ?r1 = ws1" and d1: "dropWhile py_isspace ?r1 = ?r2"
    using w1(2) nsp_c by (simp_all add: takeWhile_stop dropWhile_stop)
  have d3: "dropWhile py_isspace ?r3 = ?r4"
    using w2 hd_d d(1) space_not_digit[of "hd digits"]
    by (intro dropWhile_stop) auto
  have t4: "takeWhile py_isdigit ?r4 = digits" and d4: "dropWhile py_isdigit ?r4 = ?r5"
    using d(2) hd_w3 w3(1) space_not_digit[of "hd ws3"]
    by (auto intro!: takeWhile_stop dropWhile_stop)
  have t5: "takeWhile py_isspace ?r5 = ws3" and d5: "dropWhile py_isspace ?r5 = ?r6"
    using w3(2) nsp_m by (simp_all add: takeWhile_stop dropWhile_stop)
  have p0: "strip_prefix ''<!--'' (c @ rest) = Some ?r1"
    by (simp add: strip_prefix_Some c)
  have p2: "strip_prefix ''confluence-page-id:'' ?r2 = Some ?r3"
    by (simp only: strip_prefix_Some)
  have p6: "strip_prefix ''-->'' ?r6 = Some ?r7"
    by (simp only: strip_prefix_Some)
  have len: "length (c @ rest) - length rest = length c" by simp
  show ?thesis
    unfolding match_page_id_def
    by (simp only: p0 option.case t1 d1 p2 d3 Let_def t4 d4 t5 d5 p6 len w1 d w3 if_False)
qed

lemma startswith_append: "startswith (p @ s) p"
  by (induction p) auto

lemma strip_prefix_append: "strip_prefix p (p @ s) = Some s"
  by (simp add: strip_prefix_def startswith_append)

lemma re_match_language_plain:
  "CHR 0x0A \<notin> set name \<Longrightarrow> re_match_language (''language-'' @ name) = Some name"
  unfolding re_match_language_def by (simp only: strip_prefix_append) simp

lemma re_match_language_iff:
  "re_match_language s = Some g \<longleftrightarrow>
     CHR 0x0A \<notin> set g \<and> (s = ''language-'' @ g \<or> s = ''language-'' @ g @ [CHR 0x0A])"
proof
  assume "re_match_language s = Some g"
  then obtain r where r: "s = ''language-'' @ r"
    and c: "(CHR 0x0A \<notin> set r \<and> g = r)
            \<or> (r \<noteq> [] \<and> last r = CHR 0x0A \<and> CHR 0x0A \<notin> set (butlast r) \<and> g = butlast r)"
    by (auto simp: re_match_language_def strip_prefix_Some split: option.splits if_splits)
  from c show "CHR 0x0A \<notin> set g \<and> (s = ''language-'' @ g \<or> s = ''language-'' @ g @ [CHR 0x0A])"
  proof
    assume "CHR 0x0A \<notin> set r \<and> g = r"
    then show ?thesis using r by simp
  next
    assume a: "r \<noteq> [] \<and> last r = CHR 0x0A \<and> CHR 0x0A \<notin> set (butlast r) \<and> g = butlast r"
    then have "r = g @ [CHR 0x0A]" by (metis append_butlast_last_id)
    then show ?thesis using a r by simp
  qed
next
  assume a: "CHR 0x0A \<notin> set g \<and> (s = ''language-'' @ g \<or> s = ''language-'' @ g @ [CHR 0x0A])"
  then consider "s = ''language-'' @ g" | "s = ''language-'' @ (g @ [CHR 0x0A])" by auto
  then show "re_match_language s = Some g"
  proof cases
    case 1
    then show ?thesis using a re_match_language_plain by blast
  next
    case 2
    have "strip_prefix ''language-'' s = Some (g @ [CHR 0x0A])"
      unfolding 2 by (rule strip_prefix_append)
    then show ?thesis using a by (simp add: re_match_language_def)
  qed
qed

lemma rstrip_space_append:
  "list_all py_isspace ws \<Longrightarrow> (b = [] \<or> \<not> py_isspace (last b)) \<Longrightarrow> rstrip_space (b @ ws) = b"
  unfolding rstrip_space_def
  by (cases "b = []")
     (simp_all add: dropWhile_stop[where xs = "rev ws" and ys = "rev b"] hd_rev
        dropWhile_eq_Nil_conv list_all_iff)

lemma endswith_iff: "endswith s p \<longleftrightarrow> (\<exists>r. s = r @ p)"
proof -
  have "(\<exists>r. rev s = rev p @ r) \<longleftrightarrow> (\<exists>r. s = r @ p)"
  proof
    assume "\<exists>r. rev s = rev p @ r"
    then obtain r where "rev s = rev p @ r" by blast
    then have "s = rev r @ p" by (metis rev_append rev_rev_ident)
    then show "\<exists>r. s = r @ p" by blast
  next
    assume "\<exists>r. s = r @ p"
    then show "\<exists>r. rev s = rev p @ r" by auto
  qed
  then show ?thesis by (simp add: endswith_def startswith_iff)
qed

lemma re_match_root_complete:
  assumes "py_isspace c" and "CHR ''>'' \<notin> set attrs" and "list_all py_isspace ws"
  shows "re_match_root (''<root'' @ c # attrs @ ''>'' @ g @ ''</root>'' @ ws) = Some g"
proof -
  have nc: "c \<noteq> CHR ''>''" using assms(1) by (auto simp: py_isspace_def)
  have p: "strip_prefix ''<root'' (''<root'' @ c # attrs @ ''>'' @ g @ ''</root>'' @ ws)
            = Some (c # attrs @ ''>'' @ g @ ''</root>'' @ ws)"
    by (rule strip_prefix_append)
  have "dropWhile (\<lambda>c. c \<noteq> CHR ''>'') ((c # attrs) @ ''>'' @ g @ ''</root>'' @ ws)
          = ''>'' @ g @ ''</root>'' @ ws"
    using nc assms(2) by (intro dropWhile_stop) (auto simp: list_all_iff)
  then have d: "dropWhile (\<lambda>c. c \<noteq> CHR ''>'') (c # attrs @ ''>'' @ g @ ''</root>'' @ ws)
          = CHR ''>'' # g @ ''</root>'' @ ws" by simp
  have "rstrip_space ((g @ ''</root>'') @ ws) = g @ ''</root>''"
    using assms(3) by (intro rstrip_space_append) (simp_all add: py_isspace_def)
  then have r: "rstrip_space (g @ ''</root>'' @ ws) = g @ ''</root>''" by simp
  have e: "endswith (g @ ''</root>'') ''</root>''" by (simp only: endswith_iff) blast
  show ?thesis
    unfolding re_match_root_def
    by (simp only: p option.case list.case d Let_def r e assms(1)) simp
qed

lemma rstrip_space_split: "\<exists>ws. s = rstrip_space s @ ws \<and> list_all py_isspace ws"
proof -
  have "rev s = takeWhile py_isspace (rev s) @ dropWhile py_isspace (rev s)" by simp
  then have "s = rev (dropWhile py_isspace (rev s)) @ rev (takeWhile py_isspace (rev s))"
    by (metis rev_append rev_rev_ident)
  moreover have "list_all py_isspace (rev (takeWhile py_isspace (rev s)))"
    by (auto simp: list_all_iff dest: set_takeWhileD)
  ultimately show ?thesis unfolding rstrip_space_def by blast
qed

lemma re_match_root_sound:
  assumes "re_match_root xml = Some g"
  shows "\<exists>c attrs ws. xml = ''<root'' @ c # attrs @ ''>'' @ g @ ''</root>'' @ ws
           \<and> py_isspace c \<and> CHR ''>'' \<notin> set attrs \<and> list_all py_isspace ws"
proof -
  from assms obtain c r x body where
    x: "xml = ''<root'' @ c # r" and c: "py_isspace c"
    and d: "dropWhile (\<lambda>c. c \<noteq> CHR ''>'') (c # r) = x # body"
    and e: "endswith (rstrip_space body) ''</root>''"
    and g: "g = take (length (rstrip_space body) - 7) (rstrip_space body)"
    by (auto simp: re_match_root_def strip_prefix_Some Let_def
             split: option.splits list.splits if_splits)
  have nc: "c \<noteq> CHR ''>''" using c by (auto simp: py_isspace_def)
  have xgt: "x = CHR ''>''"
    using d hd_dropWhile[of "\<lambda>c. c \<noteq> CHR ''>''" "c # r"] by fastforce
  define attrs where "attrs = takeWhile (\<lambda>c. c \<noteq> CHR ''>'') r"
  have "c # r = takeWhile (\<lambda>c. c \<noteq> CHR ''>'') (c # r) @ x # body"
    using d takeWhile_dropWhile_id[of "\<lambda>c. c \<noteq> CHR ''>''" "c # r"] by simp
  then have r: "c # r = c # attrs @ ''>'' @ body" using nc xgt by (simp add: attrs_def)
  have na: "CHR ''>'' \<notin> set attrs" by (auto simp: attrs_def dest: set_takeWhileD)
  from e obtain g' where b: "rstrip_space body = g' @ ''</root>''"
    by (auto simp: endswith_iff)
  then have "g = g'" using g by simp
  moreover obtain ws where "body = rstrip_space body @ ws" "list_all py_isspace ws"
    using rstrip_space_split by blast
  ultimately have "xml = ''<root'' @ c # attrs @ ''>'' @ g @ ''</root>'' @ ws
      \<and> py_isspace c \<and> CHR ''>'' \<notin> set attrs \<and> list_all py_isspace ws"
    using x r b c na by simp
  then show ?thesis by blast
qed

section \<open>Properties\<close>

subsection \<open>C2: the order and the two outcomes of a visit\<close>

text \<open>
  C2. \<open>visit\<close>, the loop over the indices of the source, returns for every transform, state and
  node what the specification describes: a node without children is returned at once;
  otherwise the children are handled from the first to the last, each state passed on to the
  next; a replacement takes the place of its child and is not entered; a child without
  replacement is visited itself.
\<close>

theorem visit_follows_specification:
  "visit tr st node = visit_spec tr st node"
  by (rule visit_refines(1))

theorem visit_follows_specification_witness:
  "visit (cleaner_transform python) ()
     (Element ''div'' [] []
        [Element ''p'' [(macro_id, ''7'')] [] [Element ''b'' [(macro_id, ''8'')] [] [] []] [],
         Element ''i'' [] [] [] []] [])
   = Inr (Element ''div'' [] []
        [Element ''p'' [] [] [Element ''b'' [] [] [] []] [],
         Element ''i'' [] [] [] []] [], ())"
proof -
  have "visit_spec (cleaner_transform python) ()
     (Element ''div'' [] []
        [Element ''p'' [(macro_id, ''7'')] [] [Element ''b'' [(macro_id, ''8'')] [] [] []] [],
         Element ''i'' [] [] [] []] [])
   = Inr (Element ''div'' [] []
        [Element ''p'' [] [] [Element ''b'' [] [] [] []] [],
         Element ''i'' [] [] [] []] [], ())"
    by code_simp
  then show ?thesis by (simp only: visit_follows_specification)
qed

subsection \<open>C8: what the cleaner removes\<close>

text \<open>
  C8, as stated, fails: the cleaner never transforms the node it is invoked on, so that node
  keeps a volatile attribute. Here the paragraph keeps its macro identifier while the element
  inside it loses its own.
\<close>

theorem cleaner_keeps_top_level_attribute:
  "visit (cleaner_transform python) ()
     (Element ''p'' [(macro_id, ''1'')] [] [Element ''b'' [(macro_id, ''2'')] [] [] []] [])
   = Inr (Element ''p'' [(macro_id, ''1'')] [] [Element ''b'' [] [] [] []] [], ())"
  by code_simp

text \<open>
  C8, amended. The cleaner's visit of a node returns, unless a comment stands somewhere below
  the node and \<open>pop\<close> raises on a comment: then the visit raises that exception. When it
  returns, the result is the node with both volatile attributes removed from every node below
  it, at every depth: the node's own attributes are as before, no node below it carries a
  volatile attribute, and when none did the result is the input.
\<close>

theorem cleaner_strips_descendants:
  "(list_all elements_only (children_of node) \<or> comment_failure L = None \<longrightarrow>
      (\<exists>node'. visit (cleaner_transform L) () node = Inr (node', ())
         \<and> node' = set_children node (map strip_volatile (children_of node))
         \<and> attrib_of node' = attrib_of node
         \<and> list_all no_volatile (children_of node')
         \<and> (list_all no_volatile (children_of node) \<longrightarrow> node' = node)))
   \<and> (\<not> list_all elements_only (children_of node) \<longrightarrow> comment_failure L = Some e \<longrightarrow>
        visit (cleaner_transform L) () node = Inl e)"
proof (intro conjI impI)
  assume r: "list_all elements_only (children_of node) \<or> comment_failure L = None"
  let ?n = "set_children node (map strip_volatile (children_of node))"
  have 1: "visit (cleaner_transform L) () node = Inr (?n, ())"
    using r by (auto simp: cleaner_visit split: option.splits)
  have 2: "attrib_of ?n = attrib_of node" by (rule attrib_of_set_children)
  have 3: "list_all no_volatile (children_of ?n)"
    by (cases node) (simp_all add: list_all_iff no_volatile_strip)
  have 4: "list_all no_volatile (children_of node) \<longrightarrow> ?n = node"
  proof
    assume "list_all no_volatile (children_of node)"
    then have "map strip_volatile (children_of node) = children_of node"
      by (simp add: list_all_iff map_idI strip_no_volatile)
    then show "?n = node" by (simp add: set_children_self)
  qed
  show "\<exists>node'. visit (cleaner_transform L) () node = Inr (node', ())
         \<and> node' = set_children node (map strip_volatile (children_of node))
         \<and> attrib_of node' = attrib_of node
         \<and> list_all no_volatile (children_of node')
         \<and> (list_all no_volatile (children_of node) \<longrightarrow> node' = node)"
    using 1 2 3 4 by blast
next
  assume "\<not> list_all elements_only (children_of node)" and "comment_failure L = Some e"
  then show "visit (cleaner_transform L) () node = Inl e"
    by (simp add: cleaner_visit)
qed

theorem cleaner_strips_descendants_witness:
  "list_all elements_only
     (children_of (Element ''root'' [] []
        [Element ''p'' [(macro_id, ''7''), (''id'', ''x'')] []
           [Element ''b'' [(version_at_save, ''3'')] [] [] []] []] []))
   \<and> visit (cleaner_transform python) ()
       (Element ''root'' [] []
          [Element ''p'' [(macro_id, ''7''), (''id'', ''x'')] []
             [Element ''b'' [(version_at_save, ''3'')] [] [] []] []] [])
     = Inr (Element ''root'' [] []
          [Element ''p'' [(''id'', ''x'')] [] [Element ''b'' [] [] [] []] []] [], ())
   \<and> list_all no_volatile
       (children_of (Element ''root'' [] []
          [Element ''p'' [(''id'', ''x'')] [] [Element ''b'' [] [] [] []] []] []))
   \<and> visit (cleaner_transform (python\<lparr>comment_attrib_pop := \<lambda>key. None\<rparr>)) ()
       (Element ''root'' [] []
          [Comment ''c'' [], Element ''p'' [(macro_id, ''7'')] [] [Comment ''d'' []] []] [])
     = Inr (Element ''root'' [] []
          [Comment ''c'' [], Element ''p'' [] [] [Comment ''d'' []] []] [], ())
   \<and> visit (cleaner_transform python) ()
       (Element ''root'' [] []
          [Comment ''c'' [], Element ''p'' [(macro_id, ''7'')] [] [Comment ''d'' []] []] [])
     = Inl AttributeError"
proof -
  let ?t1 = "Element ''root'' [] []
        [Element ''p'' [(macro_id, ''7''), (''id'', ''x'')] []
           [Element ''b'' [(version_at_save, ''3'')] [] [] []] []] []"
  let ?t2 = "Element ''root'' [] []
          [Comment ''c'' [], Element ''p'' [(macro_id, ''7'')] [] [Comment ''d'' []] []] []"
  let ?quiet = "python\<lparr>comment_attrib_pop := \<lambda>key. None\<rparr>"
  have h1: "list_all elements_only (children_of ?t1)"
    by simp
  have h2: "comment_failure ?quiet = None"
    by (simp add: comment_failure_def)
  have h3: "\<not> list_all elements_only (children_of ?t2)"
    by simp
  have h4: "comment_failure python = Some AttributeError"
    by (simp add: comment_failure_def python_def lxml_comment_attrib_pop_def)
  have a: "visit (cleaner_transform python) () ?t1
     = Inr (Element ''root'' [] []
          [Element ''p'' [(''id'', ''x'')] [] [Element ''b'' [] [] [] []] []] [], ())"
    using cleaner_strips_descendants[of ?t1 python, THEN conjunct1, THEN mp, OF disjI1, OF h1]
    by (simp add: attrib_pop_def macro_id_def version_at_save_def)
  have b: "visit (cleaner_transform ?quiet) () ?t2
     = Inr (Element ''root'' [] []
          [Comment ''c'' [], Element ''p'' [] [] [Comment ''d'' []] []] [], ())"
    using cleaner_strips_descendants[of ?t2 ?quiet, THEN conjunct1, THEN mp, OF disjI2, OF h2]
    by (simp add: attrib_pop_def macro_id_def version_at_save_def)
  have c: "visit (cleaner_transform python) () ?t2 = Inl AttributeError"
    using cleaner_strips_descendants[of ?t2 python AttributeError, THEN conjunct2, THEN mp,
            THEN mp, OF h3 h4] .
  show ?thesis
    using h1 a b c by (simp add: macro_id_def version_at_save_def)
qed

subsection \<open>C6: what the fragment builder returns\<close>

text \<open>
  C6. For every list of strings and whatever the parser does with the assembled document: a
  root with more than one child is returned itself; a root with exactly one child gives that
  child; a syntax error of the parser comes back as \<open>ParseError\<close> around the parser's
  diagnostic, and as nothing else.
\<close>

theorem element_from_string_list_outcomes:
  "(fromstringlist L (root_data items) = Inr root \<longrightarrow> 1 < len root \<longrightarrow>
      element_from_string_list L items = Inr root)
   \<and> (fromstringlist L (root_data items) = Inr root \<longrightarrow> len root = 1 \<longrightarrow>
      element_from_string_list L items = Inr (children_of root ! 0))
   \<and> (fromstringlist L (root_data items) = Inl diagnostic \<longrightarrow>
      element_from_string_list L items = Inl (ParseError diagnostic))"
  by (simp add: element_from_string_list_def getitem_children_of len_children_of)

theorem element_from_string_list_outcomes_witness:
  "element_from_string_list python [''<p>a</p>'', ''<p>b</p>''] =
     Inr (Element ''root'' [] []
            [Element ''p'' [] [Text ''a''] [] [], Element ''p'' [] [Text ''b''] [] []] [])
   \<and> element_from_string_list python [''<p>a</p>''] = Inr (Element ''p'' [] [Text ''a''] [] [])
   \<and> element_from_string_list python [''<p>a''] =
       Inl (ParseError (XMLSyntaxError ''Opening and ending tag mismatch''))"
proof -
  have many: "fromstringlist python (root_data [''<p>a</p>'', ''<p>b</p>'']) =
     Inr (Element ''root'' [] []
            [Element ''p'' [] [Text ''a''] [] [], Element ''p'' [] [Text ''b''] [] []] [])"
    by code_simp
  have one: "fromstringlist python (root_data [''<p>a</p>'']) =
     Inr (Element ''root'' [] [] [Element ''p'' [] [Text ''a''] [] []] [])"
    by code_simp
  have bad: "fromstringlist python (root_data [''<p>a'']) =
     Inl (XMLSyntaxError ''Opening and ending tag mismatch'')"
    by code_simp
  show ?thesis
    using element_from_string_list_outcomes[of python "[''<p>a</p>'', ''<p>b</p>'']"
            "Element ''root'' [] []
              [Element ''p'' [] [Text ''a''] [] [], Element ''p'' [] [Text ''b''] [] []] []"
            "XMLUnmodelled"]
          element_from_string_list_outcomes[of python "[''<p>a</p>'']"
            "Element ''root'' [] [] [Element ''p'' [] [Text ''a''] [] []] []"
            "XMLUnmodelled"]
          element_from_string_list_outcomes[of python "[''<p>a'']" "Comment [] []"
            "XMLSyntaxError ''Opening and ending tag mismatch''"]
          many one bad
    by simp
qed

subsection \<open>C7 and C10: sanitizing\<close>

text \<open>
  C7. Sanitizing is not idempotent on the document below, which has no volatile attribute and
  on which sanitizing succeeds. The document is a single element, named \<open>root\<close>. Sanitizing it
  gives the markup inside that element, a single paragraph. Sanitizing that result raises
  \<open>AttributeError\<close>: the fragment builder hands back the paragraph alone, without the
  synthetic root, and the pattern with which \<open>_content_to_string\<close> takes the synthetic root
  away finds no match.
\<close>

theorem sanitize_not_idempotent:
  \<open>sanitize_confluence python ''<root a="1"><p>x</p></root>'' = Inr ''<p>x</p>''
   \<and> sanitize_confluence python ''<p>x</p>'' = Inl AttributeError\<close>
  by code_simp


subsection \<open>C1: the identifier comment\<close>

lemma id_comment_positions_ge: "p \<in> set (id_comment_positions pos s) \<Longrightarrow> pos \<le> p"
  by (induction s arbitrary: pos) (auto split: if_splits dest: Suc_leD)

lemma re_search_page_id_positions:
  "re_search_page_id pos s =
     (case id_comment_positions pos s of
        [] \<Rightarrow> None
      | p # ps \<Rightarrow>
          (case match_page_id (drop (p - pos) s) of
             None \<Rightarrow> None
           | Some (n, g) \<Rightarrow> Some (p, p + n, g)))"
proof (induction s arbitrary: pos)
  case Nil
  show ?case by simp
next
  case (Cons c cs)
  show ?case
  proof (cases "match_page_id (c # cs)")
    case (Some r)
    then show ?thesis by (cases r) simp
  next
    case None
    show ?thesis
    proof (cases "id_comment_positions (Suc pos) cs")
      case Nil
      then show ?thesis using None Cons[of "Suc pos"] by simp
    next
      case (Cons p ps)
      then have "Suc pos \<le> p" using id_comment_positions_ge[of p "Suc pos" cs] by simp
      then have "drop (p - pos) (c # cs) = drop (p - Suc pos) cs"
        by (simp add: Suc_diff_le drop_Cons')
      then show ?thesis using None Cons Cons.IH[of "Suc pos"] by simp
    qed
  qed
qed

lemma id_comment_positions_match:
  "p \<in> set (id_comment_positions pos s) \<Longrightarrow> match_page_id (drop (p - pos) s) \<noteq> None"
proof (induction s arbitrary: pos)
  case Nil
  then show ?case by simp
next
  case (Cons c cs)
  show ?case
  proof (cases "p = pos")
    case True
    then show ?thesis using Cons.prems id_comment_positions_ge[of p "Suc pos" cs]
      by (auto split: if_splits)
  next
    case False
    then have in_rest: "p \<in> set (id_comment_positions (Suc pos) cs)"
      using Cons.prems by (auto split: if_splits)
    then have "Suc pos \<le> p" by (rule id_comment_positions_ge)
    then have "drop (p - pos) (c # cs) = drop (p - Suc pos) cs"
      by (simp add: Suc_diff_le drop_Cons')
    then show ?thesis using Cons.IH[OF in_rest] by simp
  qed
qed

lemma id_comment_positions_drop:
  "p \<in> set (id_comment_positions pos s) \<longleftrightarrow>
     (pos \<le> p \<and> p < pos + length s \<and> match_page_id (drop (p - pos) s) \<noteq> None)"
proof (induction s arbitrary: pos)
  case Nil
  show ?case by simp
next
  case (Cons c cs)
  show ?case
  proof (cases "p = pos")
    case True
    then show ?thesis using Cons[of "Suc pos"] by auto
  next
    case False
    have "pos \<le> p \<Longrightarrow> drop (p - pos) (c # cs) = drop (p - Suc pos) cs"
      using False by (simp add: drop_Cons' Suc_diff_le)
    then show ?thesis using False Cons[of "Suc pos"] by auto
  qed
qed

text \<open>
  A string has no position of an identifier comment exactly when no part of it is an
  identifier comment.
\<close>

lemma no_id_comment_iff:
  "id_comment_positions 0 html = [] \<longleftrightarrow>
     \<not> (\<exists>before c digits after. html = before @ c @ after \<and> is_id_comment c digits)"
proof
  assume e: "id_comment_positions 0 html = []"
  show "\<not> (\<exists>before c digits after. html = before @ c @ after \<and> is_id_comment c digits)"
  proof
    assume "\<exists>before c digits after. html = before @ c @ after \<and> is_id_comment c digits"
    then obtain before c digits after where
      h: "html = before @ c @ after" and c: "is_id_comment c digits" by blast
    have "c \<noteq> []" using c by (auto simp: is_id_comment_def)
    then have "length before < length html" using h by simp
    moreover have "match_page_id (drop (length before) html) \<noteq> None"
      using h match_page_id_complete[OF c, of after] by simp
    ultimately have "length before \<in> set (id_comment_positions 0 html)"
      by (simp add: id_comment_positions_drop)
    then show False using e by simp
  qed
next
  assume n: "\<not> (\<exists>before c digits after. html = before @ c @ after \<and> is_id_comment c digits)"
  show "id_comment_positions 0 html = []"
  proof (rule ccontr)
    assume "id_comment_positions 0 html \<noteq> []"
    then obtain p where "p \<in> set (id_comment_positions 0 html)"
      by (cases "id_comment_positions 0 html") auto
    then obtain m g where m: "match_page_id (drop p html) = Some (m, g)"
      by (auto simp: id_comment_positions_drop)
    from match_page_id_sound[OF m] obtain c rest where
      "drop p html = c @ rest" "is_id_comment c g" by blast
    then have "html = take p html @ c @ rest \<and> is_id_comment c g"
      by (metis append_take_drop_id)
    then show False using n by blast
  qed
qed

text \<open>
  C1, as stated, fails twice. The first string holds exactly one identifier comment and
  construction raises \<open>KeyError\<close>, at the anchor without \<open>href\<close>. The second holds two
  identifier comments and construction succeeds, with the identifier of the first.
\<close>

theorem construction_ignores_comment_count:
  \<open>length (id_comment_positions 0 ''<a>x</a><!-- confluence-page-id: 1 -->'') = 1
   \<and> ConfluenceDocument_init python ''<a>x</a><!-- confluence-page-id: 1 -->''
       = Inl (KeyError ''href'')
   \<and> length (id_comment_positions 0
         ''<!-- confluence-page-id: 1 --><!-- confluence-page-id: 2 -->'') = 2
   \<and> ConfluenceDocument_init python
         ''<!-- confluence-page-id: 1 --><!-- confluence-page-id: 2 -->''
       = Inr \<lparr>doc_id = ''1'', doc_links = [], doc_images = [],
              doc_root =
                Element ''root'' [] []
                  [Element ''{http://atlassian.com/content}structured-macro''
                     [(''{http://atlassian.com/content}name'', ''info''),
                      (''{http://atlassian.com/content}schema-version'', ''1'')] []
                     [Element ''{http://atlassian.com/content}rich-text-body'' [] []
                        [Element ''p'' [] [Text ''This page has been generated with a tool.'']
                           [] []] []] [],
                   Comment '' confluence-page-id: 2 '' []] []\<rparr>\<close>
  by code_simp

text \<open>
  C1, amended. Construction raises for every string no part of which is an identifier
  comment. For a string with at least one, the pattern matches at the leftmost of them, on the
  text of that comment, and captures its digits; construction then succeeds exactly when the fragment list built
  around that match parses and the converter's visit of the result succeeds, and the
  identifier of the document is the captured string. Further identifier comments are not
  looked for.
\<close>

theorem construction_uses_leftmost_comment:
  "(\<not> (\<exists>before c digits after. html = before @ c @ after \<and> is_id_comment c digits) \<longrightarrow>
      ConfluenceDocument_init L html = Inl AttributeError)
   \<and> (id_comment_positions 0 html = p # ps \<longrightarrow>
        (\<exists>n digits.
           match_page_id (drop p html) = Some (n, digits)
           \<and> is_id_comment (take n (drop p html)) digits
           \<and> ConfluenceDocument_init L html =
               (case element_from_string_list L (document_fragments html p (p + n)) of
                  Inl e \<Rightarrow> Inl e
                | Inr root \<Rightarrow>
                    (case visit (converter_transform L) converter_init root of
                       Inl e \<Rightarrow> Inl e
                     | Inr (root', c) \<Rightarrow>
                         Inr \<lparr>doc_id = digits, doc_links = links c, doc_images = images c,
                              doc_root = root'\<rparr>))))"
proof (intro conjI impI)
  assume "\<not> (\<exists>before c digits after. html = before @ c @ after \<and> is_id_comment c digits)"
  then have "id_comment_positions 0 html = []"
    by (rule iffD2[OF no_id_comment_iff])
  then show "ConfluenceDocument_init L html = Inl AttributeError"
    by (simp add: ConfluenceDocument_init_def re_search_page_id_positions)
next
  assume ps: "id_comment_positions 0 html = p # ps"
  then have "match_page_id (drop (p - 0) html) \<noteq> None"
    by (intro id_comment_positions_match) simp
  then obtain n digits where m: "match_page_id (drop p html) = Some (n, digits)"
    by auto
  have s: "re_search_page_id 0 html = Some (p, p + n, digits)"
    using ps m by (simp add: re_search_page_id_positions)
  from match_page_id_sound[OF m] have c: "is_id_comment (take n (drop p html)) digits"
    by auto
  show "\<exists>n digits.
           match_page_id (drop p html) = Some (n, digits)
           \<and> is_id_comment (take n (drop p html)) digits
           \<and> ConfluenceDocument_init L html =
               (case element_from_string_list L (document_fragments html p (p + n)) of
                  Inl e \<Rightarrow> Inl e
                | Inr root \<Rightarrow>
                    (case visit (converter_transform L) converter_init root of
                       Inl e \<Rightarrow> Inl e
                     | Inr (root', c) \<Rightarrow>
                         Inr \<lparr>doc_id = digits, doc_links = links c, doc_images = images c,
                              doc_root = root'\<rparr>))"
    using m c s
    by (intro exI[of _ n] exI[of _ digits]) (simp add: ConfluenceDocument_init_def)
qed

theorem construction_uses_leftmost_comment_witness:
  \<open>ConfluenceDocument_init python ''<p>x</p>'' = Inl AttributeError
   \<and> ConfluenceDocument_init python
         ''<a href="./doc.md">t</a><!--  confluence-page-id:0042  --><!-- confluence-page-id: 7 -->''
       = Inr \<lparr>doc_id = ''0042'', doc_links = [''./doc.md''], doc_images = [],
              doc_root =
                Element ''root'' [] []
                  [Element ''{http://atlassian.com/content}structured-macro''
                     [(''{http://atlassian.com/content}name'', ''info''),
                      (''{http://atlassian.com/content}schema-version'', ''1'')] []
                     [Element ''{http://atlassian.com/content}rich-text-body'' [] []
                        [Element ''p'' [] [Text ''This page has been generated with a tool.'']
                           [] []] []] [],
                   Element ''a'' [(''href'', ''./doc.md'')] [Text ''t''] [] [],
                   Comment '' confluence-page-id: 7 '' []] []\<rparr>\<close>
proof -
  let ?root = "Element ''root'' [] []
                  [Element ''{http://atlassian.com/content}structured-macro''
                     [(''{http://atlassian.com/content}name'', ''info''),
                      (''{http://atlassian.com/content}schema-version'', ''1'')] []
                     [Element ''{http://atlassian.com/content}rich-text-body'' [] []
                        [Element ''p'' [] [Text ''This page has been generated with a tool.'']
                           [] []] []] [],
                   Element ''a'' [(''href'', ''./doc.md'')] [Text ''t''] [] [],
                   Comment '' confluence-page-id: 7 '' []] []"
  have "id_comment_positions 0 ''<p>x</p>'' = []"
    by code_simp
  then have none:
    "\<not> (\<exists>before c digits after. ''<p>x</p>'' = before @ c @ after \<and> is_id_comment c digits)"
    by (rule iffD1[OF no_id_comment_iff])
  have some: \<open>id_comment_positions 0
      ''<a href="./doc.md">t</a><!--  confluence-page-id:0042  --><!-- confluence-page-id: 7 -->''
      = [24, 58]\<close>
    by code_simp
  have m: \<open>match_page_id (drop 24
      ''<a href="./doc.md">t</a><!--  confluence-page-id:0042  --><!-- confluence-page-id: 7 -->'')
      = Some (34, ''0042'')\<close>
    by code_simp
  have parsed: \<open>element_from_string_list python (document_fragments
      ''<a href="./doc.md">t</a><!--  confluence-page-id:0042  --><!-- confluence-page-id: 7 -->''
      24 (24 + 34)) = Inr ?root\<close>
    by code_simp
  have visited: "visit (converter_transform python) converter_init ?root
      = Inr (?root, \<lparr>links = [''./doc.md''], images = []\<rparr>)"
    by code_simp
  show ?thesis
    using construction_uses_leftmost_comment[of "''<p>x</p>''" python 0 "[]"] none
          construction_uses_leftmost_comment[of
            \<open>''<a href="./doc.md">t</a><!--  confluence-page-id:0042  --><!-- confluence-page-id: 7 -->''\<close>
            python 24 "[58]"] some m parsed visited
    by simp
qed

subsection \<open>C3: anchors\<close>

lemma tag_is_unique: "tag_is n a \<Longrightarrow> a \<noteq> b \<Longrightarrow> \<not> tag_is n b"
  by (cases n) auto

lemma converter_transform_anchor:
  "tag_is anchor ''a'' \<Longrightarrow>
   converter_transform L st anchor = keep_attrib anchor (transform_link L st anchor)"
  by (simp add: converter_transform_def tag_is_unique)

lemma visit_range_step_keep:
  assumes "index < n" and "getitem node index = Inr source" and "tr st source = Inr (None, a, st1)"
  shows "visit_range tr st node index n =
     (case visit tr st1 (set_attrib source a) of
        Inl e \<Rightarrow> Inl e
      | Inr (source', st2) \<Rightarrow> visit_range tr st2 (setitem node index source') (Suc index) n)"
  using assms by (subst visit_range.simps) simp

text \<open>
  C3. For an anchor with an \<open>href\<close> on which \<open>urlparse\<close> returns: the transform gives no
  replacement and leaves the attributes as they are; the list of links gets the URL appended
  when the network location is empty and is unchanged otherwise; the images are as before. The
  loop of the visitor then visits the anchor itself, with that list. This visit goes through
  the children of the anchor as through those of any node: each child in turn is handed to the
  transform of the converter and is replaced by what the transform returns, or else visited
  itself. What the visit returns is the anchor, with its tag, attributes, text and tail, around
  the children so obtained, as many as before.
\<close>

theorem anchor_is_recorded_and_kept:
  assumes "tag_is anchor ''a''"
    and "attrib_get anchor ''href'' = Some url"
    and "urlparse_netloc L url = Inr netloc"
  shows "converter_transform L st anchor =
           Inr (None, attrib_of anchor,
                st\<lparr>links := (if netloc = [] then links st @ [url] else links st)\<rparr>)
         \<and> (\<forall>node index n. index < n \<longrightarrow> getitem node index = Inr anchor \<longrightarrow>
               visit_range (converter_transform L) st node index n =
                 (case visit (converter_transform L)
                         (st\<lparr>links := (if netloc = [] then links st @ [url] else links st)\<rparr>)
                         anchor of
                    Inl e \<Rightarrow> Inl e
                  | Inr (anchor', st2) \<Rightarrow>
                      visit_range (converter_transform L) st2 (setitem node index anchor')
                        (Suc index) n))
         \<and> (\<forall>st1 anchor' st2. visit (converter_transform L) st1 anchor = Inr (anchor', st2) \<longrightarrow>
               anchor' = set_children anchor (children_of anchor')
               \<and> length (children_of anchor') = length (children_of anchor))
         \<and> (\<forall>st1. visit (converter_transform L) st1 anchor =
               (if children_of anchor = [] then Inr (anchor, st1)
                else case visit_children_spec (converter_transform L) st1 (children_of anchor) of
                       Inl e \<Rightarrow> Inl e
                     | Inr (cs, st2) \<Rightarrow> Inr (set_children anchor cs, st2)))"
proof -
  let ?st = "st\<lparr>links := (if netloc = [] then links st @ [url] else links st)\<rparr>"
  have t: "converter_transform L st anchor = Inr (None, attrib_of anchor, ?st)"
    using assms
    by (simp add: converter_transform_anchor keep_attrib_def transform_link_def
          is_absolute_url_def)
  have "visit_range (converter_transform L) st node index n =
                 (case visit (converter_transform L) ?st anchor of
                    Inl e \<Rightarrow> Inl e
                  | Inr (anchor', st2) \<Rightarrow>
                      visit_range (converter_transform L) st2 (setitem node index anchor')
                        (Suc index) n)"
    if "index < n" and "getitem node index = Inr anchor" for node index n
    using visit_range_step_keep[where tr = "converter_transform L" and st = st, OF that t]
    by (simp add: set_attrib_self)
  moreover have "anchor' = set_children anchor (children_of anchor')
               \<and> length (children_of anchor') = length (children_of anchor)"
    if "visit (converter_transform L) st1 anchor = Inr (anchor', st2)" for st1 anchor' st2
    using visit_keeps_node[OF that] by simp
  moreover have "visit (converter_transform L) st1 anchor =
               (if children_of anchor = [] then Inr (anchor, st1)
                else case visit_children_spec (converter_transform L) st1 (children_of anchor) of
                       Inl e \<Rightarrow> Inl e
                     | Inr (cs, st2) \<Rightarrow> Inr (set_children anchor cs, st2))" for st1
    by (simp only: visit_refines(1) visit_spec_def)
  ultimately show ?thesis using t by blast
qed

theorem anchor_is_recorded_and_kept_witness:
  \<open>visit (converter_transform python) converter_init
     (Element ''p'' [] []
        [Element ''a'' [(''href'', ''./doc.md'')] [Text ''text''] [] [],
         Element ''a'' [(''href'', ''https://x.com/y'')] [Text ''text''] [] []] [])
   = Inr (Element ''p'' [] []
            [Element ''a'' [(''href'', ''./doc.md'')] [Text ''text''] [] [],
             Element ''a'' [(''href'', ''https://x.com/y'')] [Text ''text''] [] []] [],
          \<lparr>links = [''./doc.md''], images = []\<rparr>)
   \<and> visit (converter_transform python) converter_init
       (Element ''p'' [] []
          [Element ''a'' [(''href'', ''./doc.md'')] []
             [Element ''img'' [(''src'', ''a.png''), (''alt'', ''Cap'')] [] [] []] []] [])
     = Inr (Element ''p'' [] []
              [Element ''a'' [(''href'', ''./doc.md'')] []
                 [Element ''{http://atlassian.com/content}image''
                    [(''{http://atlassian.com/content}align'', ''center''),
                     (''{http://atlassian.com/content}layout'', ''center'')] []
                    [Element ''{http://atlassian.com/resource/identifier}attachment''
                       [(''{http://atlassian.com/resource/identifier}filename'', ''a.png'')]
                       [] [] [],
                     Element ''{http://atlassian.com/content}caption'' [] []
                       [Element ''p'' [] [Text ''Cap''] [] []] []] []] []] [],
            \<lparr>links = [''./doc.md''], images = [''a.png'']\<rparr>)\<close>
proof -
  let ?rel = "Element ''a'' [(''href'', ''./doc.md'')] [Text ''text''] [] []"
  let ?abs = "Element ''a'' [(''href'', ''https://x.com/y'')] [Text ''text''] [] []"
  let ?p = "Element ''p'' [] [] [?rel, ?abs] []"
  let ?st = "\<lparr>links = [''./doc.md''], images = []\<rparr>"
  let ?tr = "converter_transform python"
  have r1: "tag_is ?rel ''a''" and r2: "attrib_get ?rel ''href'' = Some ''./doc.md''"
    by (simp_all add: attrib_get_def)
  have r3: "urlparse_netloc python ''./doc.md'' = Inr []"
    by code_simp
  have a1: "tag_is ?abs ''a''" and a2: "attrib_get ?abs ''href'' = Some ''https://x.com/y''"
    by (simp_all add: attrib_get_def)
  have a3: "urlparse_netloc python ''https://x.com/y'' = Inr ''x.com''"
    by code_simp
  note rel = anchor_is_recorded_and_kept[OF r1 r2 r3, of converter_init]
  note abs = anchor_is_recorded_and_kept[OF a1 a2 a3, of ?st]
  have g0: "getitem ?p 0 = Inr ?rel" and g1: "getitem ?p (Suc 0) = Inr ?abs"
    by simp_all
  have v0: "visit ?tr ?st ?rel = Inr (?rel, ?st)"
    using rel[THEN conjunct2, THEN conjunct2, THEN conjunct2, rule_format, of ?st] by simp
  have v1: "visit ?tr ?st ?abs = Inr (?abs, ?st)"
    using abs[THEN conjunct2, THEN conjunct2, THEN conjunct2, rule_format, of ?st] by simp
  have s1: "visit_range ?tr converter_init ?p 0 (Suc (Suc 0)) =
              visit_range ?tr ?st ?p (Suc 0) (Suc (Suc 0))"
    using rel[THEN conjunct2, THEN conjunct1, rule_format, of 0 "Suc (Suc 0)" ?p, OF _ g0] v0
    by (simp add: converter_init_def)
  have s2: "visit_range ?tr ?st ?p (Suc 0) (Suc (Suc 0)) =
              visit_range ?tr ?st ?p (Suc (Suc 0)) (Suc (Suc 0))"
    using abs[THEN conjunct2, THEN conjunct1, rule_format, of "Suc 0" "Suc (Suc 0)" ?p, OF _ g1] v1
    by simp
  have s3: "visit_range ?tr ?st ?p (Suc (Suc 0)) (Suc (Suc 0)) = Inr (?p, ?st)"
    by (simp add: visit_range.simps)
  have first: "visit ?tr converter_init ?p = Inr (?p, ?st)"
    using s1 s2 s3 by (simp add: visit.simps)
  let ?img = "Element ''img'' [(''src'', ''a.png''), (''alt'', ''Cap'')] [] [] []"
  let ?mac = "Element ''{http://atlassian.com/content}image''
                    [(''{http://atlassian.com/content}align'', ''center''),
                     (''{http://atlassian.com/content}layout'', ''center'')] []
                    [Element ''{http://atlassian.com/resource/identifier}attachment''
                       [(''{http://atlassian.com/resource/identifier}filename'', ''a.png'')]
                       [] [] [],
                     Element ''{http://atlassian.com/content}caption'' [] []
                       [Element ''p'' [] [Text ''Cap''] [] []] []] []"
  let ?lnk = "Element ''a'' [(''href'', ''./doc.md'')] [] [?img] []"
  let ?lnk' = "Element ''a'' [(''href'', ''./doc.md'')] [] [?mac] []"
  let ?q = "Element ''p'' [] [] [?lnk] []"
  let ?st2 = "\<lparr>links = [''./doc.md''], images = [''a.png'']\<rparr>"
  have l1: "tag_is ?lnk ''a''" and l2: "attrib_get ?lnk ''href'' = Some ''./doc.md''"
    by (simp_all add: attrib_get_def)
  note lnk = anchor_is_recorded_and_kept[OF l1 l2 r3, of converter_init]
  have kids: "visit_children_spec ?tr ?st [?img] = Inr ([?mac], ?st2)"
    by code_simp
  have vl: "visit ?tr ?st ?lnk = Inr (?lnk', ?st2)"
    using lnk[THEN conjunct2, THEN conjunct2, THEN conjunct2, rule_format, of ?st] kids
    by simp
  have gq: "getitem ?q 0 = Inr ?lnk"
    by simp
  have q1: "visit_range ?tr converter_init ?q 0 (Suc 0) =
              visit_range ?tr ?st2 (Element ''p'' [] [] [?lnk'] []) (Suc 0) (Suc 0)"
    using lnk[THEN conjunct2, THEN conjunct1, rule_format, of 0 "Suc 0" ?q, OF _ gq] vl
    by (simp add: converter_init_def)
  have q2: "visit_range ?tr ?st2 (Element ''p'' [] [] [?lnk'] []) (Suc 0) (Suc 0)
              = Inr (Element ''p'' [] [] [?lnk'] [], ?st2)"
    by (simp add: visit_range.simps)
  have second: "visit ?tr converter_init ?q = Inr (Element ''p'' [] [] [?lnk'] [], ?st2)"
    using q1 q2 by (simp add: visit.simps)
  show ?thesis using first second by (rule conjI)
qed

subsection \<open>C4: the language of a code block\<close>

lemma languages_no_line_feed: "name \<in> set languages \<Longrightarrow> CHR 0x0A \<notin> set name"
  by (auto simp: languages_def)

lemma converter_transform_pre:
  assumes "tag_is pre ''pre''" and "len pre = 1" and "getitem pre 0 = Inr code"
    and "tag_is code ''code''"
  shows "converter_transform L st pre = keep_attrib pre (transform_block L st code)"
proof -
  have "children_of pre ! 0 = code"
    using assms(3) by (simp add: getitem_children_of split: if_splits)
  then show ?thesis
    using assms(1,2,4) tag_is_unique[OF assms(1)] tag_is_unique[OF assms(4)]
    by (simp add: converter_transform_def)
qed

text \<open>
  C4, as stated, fails where the class attribute is present and empty: the empty string does
  not match the pattern, yet the source skips the match and the macro gets the language
  \<open>none\<close>; the conversion does not fail.
\<close>

theorem empty_class_gives_none:
  \<open>attrib_get (Element ''code'' [(''class'', [])] [Text ''x=1''] [] []) ''class'' = Some []
   \<and> re_match_language [] = None
   \<and> block_language (Element ''code'' [(''class'', [])] [Text ''x=1''] [] []) = Inr ''none''
   \<and> converter_transform python converter_init
        (Element ''pre'' [] [] [Element ''code'' [(''class'', [])] [Text ''x=1''] [] []] [])
       = Inr (Some
               (Element ''{http://atlassian.com/content}structured-macro''
                  [(''{http://atlassian.com/content}name'', ''code''),
                   (''{http://atlassian.com/content}schema-version'', ''1'')] []
                  [Element ''{http://atlassian.com/content}parameter''
                     [(''{http://atlassian.com/content}name'', ''theme'')] [Text ''Midnight''] [] [],
                   Element ''{http://atlassian.com/content}parameter''
                     [(''{http://atlassian.com/content}name'', ''language'')] [Text ''none''] [] [],
                   Element ''{http://atlassian.com/content}parameter''
                     [(''{http://atlassian.com/content}name'', ''linenumbers'')] [Text ''true''] [] [],
                   Element ''{http://atlassian.com/content}plain-text-body'' []
                     [CData ''x=1''] [] []] []),
              [], converter_init)\<close>
  by code_simp

text \<open>
  C4, amended. For a code element: without a class attribute, or with an empty one, the
  language is \<open>none\<close>; with the class \<open>language-<name>\<close> (the name without a line feed) it is the
  name when the name is one of the recognized languages and \<open>none\<close> otherwise; with a class
  that is not empty and does not match the pattern (as any class that does not begin with
  \<open>language-\<close>) the transform raises \<open>AttributeError\<close>.
  The language so found is what the transform writes into the language parameter of the macro
  it asks the fragment builder for, and the converter applies this transform to the single
  code child of a \<open>pre\<close> element.
\<close>

theorem code_block_language:
  \<open>(attrib_get code ''class'' = None \<longrightarrow> block_language code = Inr ''none'')
   \<and> (attrib_get code ''class'' = Some [] \<longrightarrow> block_language code = Inr ''none'')
   \<and> (attrib_get code ''class'' = Some (''language-'' @ name) \<longrightarrow> CHR 0x0A \<notin> set name \<longrightarrow>
        block_language code = Inr (if name \<in> set languages then name else ''none''))
   \<and> (attrib_get code ''class'' = Some cls \<longrightarrow> cls \<noteq> [] \<longrightarrow> re_match_language cls = None \<longrightarrow>
        block_language code = Inl AttributeError \<and> transform_block L st code = Inl AttributeError)
   \<and> (attrib_get code ''class'' = Some cls \<longrightarrow> cls \<noteq> [] \<longrightarrow> \<not> startswith cls ''language-'' \<longrightarrow>
        transform_block L st code = Inl AttributeError)
   \<and> transform_block L st code =
       (case block_language code of
          Inl e \<Rightarrow> Inl e
        | Inr language \<Rightarrow>
            (case element_from_string_list L
                    [''<ac:structured-macro ac:name="code" ac:schema-version="1">'',
                     ''<ac:parameter ac:name="theme">Midnight</ac:parameter>'',
                     ''<ac:parameter ac:name="language">'' @ language @ ''</ac:parameter>'',
                     ''<ac:parameter ac:name="linenumbers">true</ac:parameter>'',
                     ''<ac:plain-text-body><![CDATA['' @ format_text (text_of code)
                        @ '']]></ac:plain-text-body>'',
                     ''</ac:structured-macro>'']
             of Inl e \<Rightarrow> Inl e
              | Inr el \<Rightarrow> Inr (Some el, st)))
   \<and> (tag_is pre ''pre'' \<longrightarrow> len pre = 1 \<longrightarrow> getitem pre 0 = Inr code \<longrightarrow> tag_is code ''code'' \<longrightarrow>
        converter_transform L st pre = keep_attrib pre (transform_block L st code))\<close>
proof (intro conjI impI)
  assume "attrib_get code ''class'' = None"
  then show "block_language code = Inr ''none''" by (simp add: block_language_def)
next
  assume "attrib_get code ''class'' = Some []"
  then show "block_language code = Inr ''none''"
    by (simp add: block_language_def languages_def)
next
  assume c: "attrib_get code ''class'' = Some (''language-'' @ name)"
    and n: "CHR 0x0A \<notin> set name"
  have "re_match_language (''language-'' @ name) = Some name"
    using n by (rule re_match_language_plain)
  then show "block_language code = Inr (if name \<in> set languages then name else ''none'')"
    using c by (simp add: block_language_def)
next
  assume c: "attrib_get code ''class'' = Some cls" and "cls \<noteq> []"
    and "re_match_language cls = None"
  then show "block_language code = Inl AttributeError" by (simp add: block_language_def)
  then show "transform_block L st code = Inl AttributeError" by (simp add: transform_block_def)
next
  assume "attrib_get code ''class'' = Some cls" and "cls \<noteq> []"
    and "\<not> startswith cls ''language-''"
  then have "block_language code = Inl AttributeError"
    by (simp add: block_language_def re_match_language_def strip_prefix_def)
  then show "transform_block L st code = Inl AttributeError" by (simp add: transform_block_def)
next
  show \<open>transform_block L st code =
       (case block_language code of
          Inl e \<Rightarrow> Inl e
        | Inr language \<Rightarrow>
            (case element_from_string_list L
                    [''<ac:structured-macro ac:name="code" ac:schema-version="1">'',
                     ''<ac:parameter ac:name="theme">Midnight</ac:parameter>'',
                     ''<ac:parameter ac:name="language">'' @ language @ ''</ac:parameter>'',
                     ''<ac:parameter ac:name="linenumbers">true</ac:parameter>'',
                     ''<ac:plain-text-body><![CDATA['' @ format_text (text_of code)
                        @ '']]></ac:plain-text-body>'',
                     ''</ac:structured-macro>'']
             of Inl e \<Rightarrow> Inl e
              | Inr el \<Rightarrow> Inr (Some el, st)))\<close>
    unfolding transform_block_def Let_def by (rule refl)
next
  assume "tag_is pre ''pre''" "len pre = 1" "getitem pre 0 = Inr code" "tag_is code ''code''"
  then show "converter_transform L st pre = keep_attrib pre (transform_block L st code)"
    by (rule converter_transform_pre)
qed

theorem code_block_language_witness:
  \<open>block_language (Element ''code'' [] [Text ''x=1''] [] []) = Inr ''none''
   \<and> block_language (Element ''code'' [(''class'', ''language-python'')] [Text ''x=1''] [] [])
       = Inr ''python''
   \<and> block_language (Element ''code'' [(''class'', ''language-unknownlang'')] [Text ''x=1''] [] [])
       = Inr ''none''
   \<and> block_language (Element ''code'' [(''class'', [])] [Text ''x=1''] [] []) = Inr ''none''
   \<and> converter_transform python converter_init
         (Element ''pre'' [] [] [Element ''code'' [(''class'', ''python'')] [Text ''x=1''] [] []] [])
       = Inl AttributeError\<close>
proof -
  let ?plain = "Element ''code'' [] [Text ''x=1''] [] []"
  let ?py = "Element ''code'' [(''class'', ''language-python'')] [Text ''x=1''] [] []"
  let ?unk = "Element ''code'' [(''class'', ''language-unknownlang'')] [Text ''x=1''] [] []"
  let ?bad = "Element ''code'' [(''class'', ''python'')] [Text ''x=1''] [] []"
  let ?pre = "Element ''pre'' [] [] [?bad] []"
  have 1: "block_language ?plain = Inr ''none''"
    using code_block_language[of ?plain] by (simp add: attrib_get_def)
  have 2: "block_language ?py = Inr ''python''"
    using code_block_language[of ?py "''python''"] by (simp add: attrib_get_def languages_def)
  have 3: "block_language ?unk = Inr ''none''"
    using code_block_language[of ?unk "''unknownlang''"]
    by (simp add: attrib_get_def languages_def)
  have 5: "block_language (Element ''code'' [(''class'', [])] [Text ''x=1''] [] []) = Inr ''none''"
    using code_block_language[of "Element ''code'' [(''class'', [])] [Text ''x=1''] [] []"]
    by (simp add: attrib_get_def)
  have m: "re_match_language ''python'' = None"
    by code_simp
  have 4: "converter_transform python converter_init ?pre = Inl AttributeError"
    using code_block_language[of ?bad _ "''python''" python converter_init ?pre] m
    by (simp add: attrib_get_def keep_attrib_def)
  show ?thesis using 1 2 3 4 5 by simp
qed

subsection \<open>C5: an image in a paragraph\<close>

text \<open>
  C5. The paragraph \<open><p><img src="a.png" alt="Cap"/></p>\<close> is replaced by one image macro,
  whose attachment carries the file name \<open>a.png\<close> and whose caption holds a paragraph with the
  text \<open>Cap\<close>, and \<open>a.png\<close> is appended to the images: first for the transform in any state of
  the converter, then for a whole document, where the macro stands in the paragraph's place
  after the banner.
\<close>

theorem image_paragraph_becomes_macro:
  \<open>converter_transform python st
     (Element ''p'' [] [] [Element ''img'' [(''src'', ''a.png''), (''alt'', ''Cap'')] [] [] []] [])
   = Inr (Some
           (Element ''{http://atlassian.com/content}image''
              [(''{http://atlassian.com/content}align'', ''center''),
               (''{http://atlassian.com/content}layout'', ''center'')] []
              [Element ''{http://atlassian.com/resource/identifier}attachment''
                 [(''{http://atlassian.com/resource/identifier}filename'', ''a.png'')] [] [] [],
               Element ''{http://atlassian.com/content}caption'' [] []
                 [Element ''p'' [] [Text ''Cap''] [] []] []] []),
          [], st\<lparr>images := images st @ [''a.png'']\<rparr>)
   \<and> ConfluenceDocument_init python
        ''<p><img src="a.png" alt="Cap"/></p><!-- confluence-page-id: 1 -->''
     = Inr \<lparr>doc_id = ''1'', doc_links = [], doc_images = [''a.png''],
            doc_root =
              Element ''root'' [] []
                [Element ''{http://atlassian.com/content}structured-macro''
                   [(''{http://atlassian.com/content}name'', ''info''),
                    (''{http://atlassian.com/content}schema-version'', ''1'')] []
                   [Element ''{http://atlassian.com/content}rich-text-body'' [] []
                      [Element ''p'' [] [Text ''This page has been generated with a tool.'']
                         [] []] []] [],
                 Element ''{http://atlassian.com/content}image''
                   [(''{http://atlassian.com/content}align'', ''center''),
                    (''{http://atlassian.com/content}layout'', ''center'')] []
                   [Element ''{http://atlassian.com/resource/identifier}attachment''
                      [(''{http://atlassian.com/resource/identifier}filename'', ''a.png'')] [] [] [],
                    Element ''{http://atlassian.com/content}caption'' [] []
                      [Element ''p'' [] [Text ''Cap''] [] []] []] []] []\<rparr>\<close>
proof -
  have parsed: \<open>element_from_string_list python
          [''<ac:image ac:align="center" ac:layout="center">'',
           ''<ri:attachment ri:filename="'' @ ''a.png'' @ ''" />'',
           ''<ac:caption><p>'' @ ''Cap'' @ ''</p></ac:caption>'',
           ''</ac:image>'']
      = Inr (Element ''{http://atlassian.com/content}image''
              [(''{http://atlassian.com/content}align'', ''center''),
               (''{http://atlassian.com/content}layout'', ''center'')] []
              [Element ''{http://atlassian.com/resource/identifier}attachment''
                 [(''{http://atlassian.com/resource/identifier}filename'', ''a.png'')] [] [] [],
               Element ''{http://atlassian.com/content}caption'' [] []
                 [Element ''p'' [] [Text ''Cap''] [] []] []] [])\<close>
    by code_simp
  have transform: \<open>converter_transform python st
     (Element ''p'' [] [] [Element ''img'' [(''src'', ''a.png''), (''alt'', ''Cap'')] [] [] []] [])
   = Inr (Some
           (Element ''{http://atlassian.com/content}image''
              [(''{http://atlassian.com/content}align'', ''center''),
               (''{http://atlassian.com/content}layout'', ''center'')] []
              [Element ''{http://atlassian.com/resource/identifier}attachment''
                 [(''{http://atlassian.com/resource/identifier}filename'', ''a.png'')] [] [] [],
               Element ''{http://atlassian.com/content}caption'' [] []
                 [Element ''p'' [] [Text ''Cap''] [] []] []] []),
          [], st\<lparr>images := images st @ [''a.png'']\<rparr>)\<close>
    using parsed
    by (simp add: converter_transform_def transform_image_def keep_attrib_def attrib_get_def
          Let_def)
  have document: \<open>ConfluenceDocument_init python
        ''<p><img src="a.png" alt="Cap"/></p><!-- confluence-page-id: 1 -->''
     = Inr \<lparr>doc_id = ''1'', doc_links = [], doc_images = [''a.png''],
            doc_root =
              Element ''root'' [] []
                [Element ''{http://atlassian.com/content}structured-macro''
                   [(''{http://atlassian.com/content}name'', ''info''),
                    (''{http://atlassian.com/content}schema-version'', ''1'')] []
                   [Element ''{http://atlassian.com/content}rich-text-body'' [] []
                      [Element ''p'' [] [Text ''This page has been generated with a tool.'']
                         [] []] []] [],
                 Element ''{http://atlassian.com/content}image''
                   [(''{http://atlassian.com/content}align'', ''center''),
                    (''{http://atlassian.com/content}layout'', ''center'')] []
                   [Element ''{http://atlassian.com/resource/identifier}attachment''
                      [(''{http://atlassian.com/resource/identifier}filename'', ''a.png'')] [] [] [],
                    Element ''{http://atlassian.com/content}caption'' [] []
                      [Element ''p'' [] [Text ''Cap''] [] []] []] []] []\<rparr>\<close>
    by code_simp
  show ?thesis using transform document by (rule conjI)
qed

subsection \<open>C9: classifying a URL\<close>

lemma set_split_scheme: "set (split_scheme url) \<subseteq> set url"
  by (auto simp: split_scheme_def Let_def dest: in_set_dropD)

lemma py_urlparse_netloc_returns:
  assumes "list_all (\<lambda>c. c \<noteq> CHR ''['' \<and> c \<noteq> CHR '']'' \<and> (of_char c :: nat) < 128) url"
  shows "\<exists>netloc. py_urlparse_netloc url = Inr netloc"
proof -
  define url2 where
    "url2 = filter (\<lambda>c. c \<noteq> CHR 0x09 \<and> c \<noteq> CHR 0x0D \<and> c \<noteq> CHR 0x0A)
              (dropWhile (\<lambda>c. (of_char c :: nat) \<le> 32) url)"
  define netloc where
    "netloc = takeWhile (\<lambda>c. c \<noteq> CHR ''/'' \<and> c \<noteq> CHR ''?'' \<and> c \<noteq> CHR ''#'')
                (drop 2 (split_scheme url2))"
  have "set url2 \<subseteq> set url"
    by (auto simp: url2_def dest: set_dropWhileD)
  then have "set netloc \<subseteq> set url"
    using set_split_scheme[of url2]
    by (auto simp: netloc_def dest!: set_takeWhileD in_set_dropD)
  then have "CHR ''['' \<notin> set netloc" "CHR '']'' \<notin> set netloc"
    "list_all (\<lambda>c. (of_char c :: nat) < 128) netloc"
    using assms by (auto simp: list_all_iff)
  then show ?thesis
    by (simp add: py_urlparse_netloc_def Let_def url2_def[symmetric] netloc_def[symmetric])
qed

text \<open>
  C9, as stated, fails: the classification raises whenever \<open>urlparse\<close> raises, and it does for a
  network location with a bracket that is not closed. The transform of an anchor with such an
  \<open>href\<close> raises the same error; nothing is appended.
\<close>

theorem unbalanced_bracket_raises:
  "is_absolute_url python ''//['' = Inl ValueError
   \<and> converter_transform python converter_init
        (Element ''a'' [(''href'', ''//['')] [Text ''x''] [] []) = Inl ValueError"
  by code_simp

text \<open>
  C9, amended. The classification raises exactly the error \<open>urlparse\<close> raises and returns
  whenever \<open>urlparse\<close> returns, with the answer that the network location is not empty. When
  \<open>urlparse\<close> raises on the \<open>href\<close> of an anchor, the link transform raises the same error,
  before it could append the URL; so does the converter's transform of the anchor, and so does
  the loop of the visitor that has reached the anchor. When \<open>urlparse\<close> returns, the link
  transform returns, with the URL appended exactly when the network location is empty. With
  the \<open>urlparse\<close> of the model, the classification returns for every URL of ASCII characters
  without a square bracket, however malformed.
\<close>

theorem classification_fails_only_with_urlparse:
  "(is_absolute_url L url = Inl e \<longleftrightarrow> urlparse_netloc L url = Inl e)
   \<and> (urlparse_netloc L url = Inr netloc \<longrightarrow> is_absolute_url L url = Inr (netloc \<noteq> []))
   \<and> (attrib_get anchor ''href'' = Some url \<longrightarrow> urlparse_netloc L url = Inl e \<longrightarrow>
        transform_link L st anchor = Inl e
        \<and> (tag_is anchor ''a'' \<longrightarrow>
             converter_transform L st anchor = Inl e
             \<and> (\<forall>node index n. index < n \<longrightarrow> getitem node index = Inr anchor \<longrightarrow>
                  visit_range (converter_transform L) st node index n = Inl e)))
   \<and> (attrib_get anchor ''href'' = Some url \<longrightarrow> urlparse_netloc L url = Inr netloc \<longrightarrow>
        transform_link L st anchor =
          Inr (None, st\<lparr>links := (if netloc = [] then links st @ [url] else links st)\<rparr>))
   \<and> (list_all (\<lambda>c. c \<noteq> CHR ''['' \<and> c \<noteq> CHR '']'' \<and> (of_char c :: nat) < 128) url \<longrightarrow>
        (\<exists>absolute. is_absolute_url python url = Inr absolute))"
proof (intro conjI impI allI)
  show "is_absolute_url L url = Inl e \<longleftrightarrow> urlparse_netloc L url = Inl e"
    by (simp add: is_absolute_url_def split: sum.splits)
next
  assume "urlparse_netloc L url = Inr netloc"
  then show "is_absolute_url L url = Inr (netloc \<noteq> [])"
    by (simp add: is_absolute_url_def)
next
  assume h: "attrib_get anchor ''href'' = Some url" and u: "urlparse_netloc L url = Inl e"
  then show "transform_link L st anchor = Inl e"
    by (simp add: transform_link_def is_absolute_url_def)
next
  assume h: "attrib_get anchor ''href'' = Some url" and u: "urlparse_netloc L url = Inl e"
    and a: "tag_is anchor ''a''"
  then show "converter_transform L st anchor = Inl e"
    by (simp add: converter_transform_anchor keep_attrib_def transform_link_def
          is_absolute_url_def)
next
  fix node index n
  assume h: "attrib_get anchor ''href'' = Some url" and u: "urlparse_netloc L url = Inl e"
    and a: "tag_is anchor ''a''" and i: "index < n" and g: "getitem node index = Inr anchor"
  have "converter_transform L st anchor = Inl e"
    using h u a
    by (simp add: converter_transform_anchor keep_attrib_def transform_link_def
          is_absolute_url_def)
  then show "visit_range (converter_transform L) st node index n = Inl e"
    using i g by (subst visit_range.simps) simp
next
  assume "attrib_get anchor ''href'' = Some url" and "urlparse_netloc L url = Inr netloc"
  then show "transform_link L st anchor =
          Inr (None, st\<lparr>links := (if netloc = [] then links st @ [url] else links st)\<rparr>)"
    by (simp add: transform_link_def is_absolute_url_def)
next
  assume "list_all (\<lambda>c. c \<noteq> CHR ''['' \<and> c \<noteq> CHR '']'' \<and> (of_char c :: nat) < 128) url"
  then obtain netloc where "py_urlparse_netloc url = Inr netloc"
    using py_urlparse_netloc_returns by blast
  then show "\<exists>absolute. is_absolute_url python url = Inr absolute"
    by (simp add: is_absolute_url_def python_def)
qed

theorem classification_fails_only_with_urlparse_witness:
  "is_absolute_url python ''https://x.com/y'' = Inr True
   \<and> is_absolute_url python ''http:/:80:/ not a url'' = Inr False
   \<and> is_absolute_url python ''http://[::1'' = Inl ValueError
   \<and> transform_link python converter_init
         (Element ''a'' [(''href'', ''http://[::1'')] [Text ''x''] [] []) = Inl ValueError
   \<and> visit (converter_transform python) converter_init
         (Element ''p'' [] []
            [Element ''a'' [(''href'', ''http://[::1'')] [Text ''x''] [] []] [])
       = Inl ValueError
   \<and> transform_link python converter_init
         (Element ''a'' [(''href'', ''http:/:80:/ not a url'')] [Text ''x''] [] [])
       = Inr (None, \<lparr>links = [''http:/:80:/ not a url''], images = []\<rparr>)"
proof -
  let ?bad = "Element ''a'' [(''href'', ''http://[::1'')] [Text ''x''] [] []"
  let ?odd = "Element ''a'' [(''href'', ''http:/:80:/ not a url'')] [Text ''x''] [] []"
  let ?p = "Element ''p'' [] [] [?bad] []"
  have 1: "urlparse_netloc python ''https://x.com/y'' = Inr ''x.com''"
    by code_simp
  have 2: "urlparse_netloc python ''http:/:80:/ not a url'' = Inr []"
    by code_simp
  have 3: "urlparse_netloc python ''http://[::1'' = Inl ValueError"
    by code_simp
  have hb: "attrib_get ?bad ''href'' = Some ''http://[::1''" and tb: "tag_is ?bad ''a''"
    and ho: "attrib_get ?odd ''href'' = Some ''http:/:80:/ not a url''"
    and gp: "getitem ?p 0 = Inr ?bad"
    by (simp_all add: attrib_get_def)
  note bad = classification_fails_only_with_urlparse[of python "''http://[::1''" ValueError "[]"
               ?bad converter_init]
  note odd = classification_fails_only_with_urlparse[of python "''http:/:80:/ not a url''"
               ValueError "[]" ?odd converter_init]
  have a: "is_absolute_url python ''https://x.com/y'' = Inr True"
    using classification_fails_only_with_urlparse[of python "''https://x.com/y''" ValueError
            "''x.com''"] 1
    by simp
  have b: "is_absolute_url python ''http:/:80:/ not a url'' = Inr False"
    using odd 2 by simp
  have c: "is_absolute_url python ''http://[::1'' = Inl ValueError"
    using bad 3 by simp
  have d: "transform_link python converter_init ?bad = Inl ValueError"
    using bad hb 3 by simp
  have "visit_range (converter_transform python) converter_init ?p 0 (Suc 0) = Inl ValueError"
    using bad[THEN conjunct2, THEN conjunct2, THEN conjunct1, rule_format, OF hb 3,
              THEN conjunct2, rule_format, OF tb, THEN conjunct2, rule_format,
              of 0 "Suc 0" ?p, OF _ gp]
    by simp
  then have e: "visit (converter_transform python) converter_init ?p = Inl ValueError"
    by (simp add: visit.simps)
  have f: "transform_link python converter_init ?odd
       = Inr (None, \<lparr>links = [''http:/:80:/ not a url''], images = []\<rparr>)"
    using odd ho 2 by (simp add: converter_init_def)
  show ?thesis using a b c d e f by simp
qed

end
